theory Spec2Isabelle
  imports Main "HOL-Library.AList"
begin

section \<open>Go values held in the configuration document\<close>

text \<open>
  The configuration is decoded into \<^verbatim>\<open>map[string]interface{}\<close>. A dynamic Go value of the
  document is a \<open>gval\<close>; \<open>GMaps\<close> is the typed slice \<^verbatim>\<open>[]map[string]interface{}\<close>, which
  the synchronizer stores under \<^verbatim>\<open>"users"\<close> and which \<^verbatim>\<open>ensureUsersLocked\<close> tells apart
  from a decoded \<^verbatim>\<open>[]interface{}\<close> (\<open>GArr\<close>). A Go map is an association list read with
  \<open>map_of\<close> and written with \<open>AList.update\<close> and \<open>AList.delete\<close>. Numbers are
  \<^verbatim>\<open>float64\<close> and are left abstract.
\<close>

typedecl float64

datatype gval =
    GNil
  | GBool bool
  | GNum float64
  | GStr string
  | GArr "gval list"
  | GObj "(string \<times> gval) list"
  | GMaps "(string \<times> gval) list list"

type_synonym gmap = "(string \<times> gval) list"

datatype error =
    ErrEmptyConfig
  | ErrUnmarshal
  | ErrNoInbounds
  | ErrAlreadyRunning
  | ErrAlreadyRestarting
  | ErrCoreNotInitialized
  | ErrUserPayloadEmpty
  | ErrConfigRequired
  | ErrConfigNotInitialized
  | ErrOS string

text \<open>The type assertion \<^verbatim>\<open>v, _ := m[k].(string)\<close>: the zero string unless a string is stored.\<close>

definition strField :: "gmap \<Rightarrow> string \<Rightarrow> string" where
  "strField m k = (case map_of m k of Some (GStr s) \<Rightarrow> s | _ \<Rightarrow> [])"

section \<open>Library functions\<close>

text \<open>
  The functions of the Go standard library and of package \<^verbatim>\<open>common\<close> that the sources call
  and that are not among them are the fields of one record, over which every statement
  below is universal: \<^verbatim>\<open>common.EnsureBase64Password\<close> (password, then method), the JSON
  decoder behind \<^verbatim>\<open>json.Unmarshal\<close> (\<open>None\<close> for a text that is not JSON),
  \<^verbatim>\<open>strings.ToLower\<close>, \<^verbatim>\<open>json.MarshalIndent\<close>, \<^verbatim>\<open>json.Indent\<close> (\<open>None\<close> when it fails),
  \<^verbatim>\<open>filepath.Join\<close>, \<^verbatim>\<open>filepath.Abs\<close>, and \<^verbatim>\<open>cmd.Run\<close> of an executable with its
  arguments, which gives an error or the combined output.
\<close>

record Env =
  EnsureBase64Password :: "string \<Rightarrow> string \<Rightarrow> string"
  jsonDecode :: "string \<Rightarrow> gval option"
  ToLower :: "string \<Rightarrow> string"
  MarshalIndent :: "gval \<Rightarrow> error + string"
  Indent :: "string \<Rightarrow> string option"
  Join :: "string \<Rightarrow> string \<Rightarrow> string"
  Abs :: "string \<Rightarrow> error + string"
  Run :: "string \<Rightarrow> string list \<Rightarrow> error + string"

section \<open>Users\<close>

text \<open>
  Modelled from the spec: the message types of package \<^verbatim>\<open>common\<close> (\<^verbatim>\<open>User\<close>, its proxy
  settings and their getters) are not among the sources. A user has an identity, the tags of
  the inbounds it belongs to and credentials. The specification gives a user one credential
  variant; the synchronizer asks for each of the four through the getters \<^verbatim>\<open>GetVmess\<close>,
  \<^verbatim>\<open>GetVless\<close>, \<^verbatim>\<open>GetTrojan\<close> and \<^verbatim>\<open>GetShadowsocks\<close>, so each is present or absent here.
  The getters (also \<^verbatim>\<open>GetEmail\<close>, \<^verbatim>\<open>GetInbounds\<close>, \<^verbatim>\<open>GetProxies\<close>) are called on possibly
  nil pointers: a pointer is an \<open>option\<close>, and a getter on \<open>None\<close> gives the zero value.
\<close>

record Vmess =
  vmess_id :: string

record Vless =
  vless_id :: string
  vless_flow :: string

record Trojan =
  trojan_password :: string

record Shadowsocks =
  ss_password :: string
  ss_method :: string

record Proxy =
  vmess :: "Vmess option"
  vless :: "Vless option"
  trojan :: "Trojan option"
  shadowsocks :: "Shadowsocks option"

record User =
  email :: string
  proxies :: "Proxy option"
  user_inbounds :: "string list"

definition GetEmail :: "User option \<Rightarrow> string" where
  "GetEmail u = (case u of None \<Rightarrow> [] | Some x \<Rightarrow> email x)"

definition GetInbounds :: "User option \<Rightarrow> string list" where
  "GetInbounds u = (case u of None \<Rightarrow> [] | Some x \<Rightarrow> user_inbounds x)"

definition GetProxies :: "User option \<Rightarrow> Proxy option" where
  "GetProxies u = (case u of None \<Rightarrow> None | Some x \<Rightarrow> proxies x)"

definition GetVmess :: "Proxy option \<Rightarrow> Vmess option" where
  "GetVmess p = (case p of None \<Rightarrow> None | Some x \<Rightarrow> vmess x)"

definition GetVless :: "Proxy option \<Rightarrow> Vless option" where
  "GetVless p = (case p of None \<Rightarrow> None | Some x \<Rightarrow> vless x)"

definition GetTrojan :: "Proxy option \<Rightarrow> Trojan option" where
  "GetTrojan p = (case p of None \<Rightarrow> None | Some x \<Rightarrow> trojan x)"

definition GetShadowsocks :: "Proxy option \<Rightarrow> Shadowsocks option" where
  "GetShadowsocks p = (case p of None \<Rightarrow> None | Some x \<Rightarrow> shadowsocks x)"

section \<open>Inbounds and the configuration\<close>

text \<open>
  \<open>raw\<close> of an inbound is the map of its entry in the document: in the source the same map
  object is reachable from \<^verbatim>\<open>Config.raw\<close>, so \<open>cfg_raw\<close> keeps the document as decoded and
  \<open>documentTree\<close> below puts the inbounds' maps back in their places for serialization.
\<close>

record Inbound =
  tag :: string
  protocol :: string
  raw :: gmap
  exclude :: bool

record Config =
  cfg_raw :: gmap
  inbounds :: "Inbound list"

definition shouldAttachUser :: "User option \<Rightarrow> string \<Rightarrow> bool" where
  "shouldAttachUser user inboundTag =
     (case user of
        None \<Rightarrow> False
      | Some u \<Rightarrow>
          if length (GetInbounds user) = 0 then False
          else inboundTag \<in> set (GetInbounds user))"

definition buildAccount ::
  "Env \<Rightarrow> Inbound \<Rightarrow> User option \<Rightarrow> gmap option" where
  "buildAccount E i user =
     (let prx = GetProxies user; em = GetEmail user in
      if protocol i = ''vmess'' then
        (case GetVmess prx of
           Some v \<Rightarrow> Some [(''name'', GStr em), (''uuid'', GStr (vmess_id v))]
         | None \<Rightarrow> None)
      else if protocol i = ''vless'' then
        (case GetVless prx of
           Some v \<Rightarrow>
             (let account = [(''name'', GStr em), (''uuid'', GStr (vless_id v))] in
              if vless_flow v \<noteq> [] then
                Some (AList.update ''flow'' (GStr (vless_flow v)) account)
              else Some account)
         | None \<Rightarrow> None)
      else if protocol i = ''trojan'' then
        (case GetTrojan prx of
           Some t \<Rightarrow> Some [(''name'', GStr em), (''password'', GStr (trojan_password t))]
         | None \<Rightarrow> None)
      else if protocol i = ''shadowsocks'' then
        (case GetShadowsocks prx of
           Some s \<Rightarrow>
             (let password = EnsureBase64Password E (ss_password s) (ss_method s) in
              Some [(''name'', GStr em), (''password'', GStr password),
                    (''method'', GStr (ss_method s))])
         | None \<Rightarrow> None)
      else None)"

definition setUsers :: "gmap list \<Rightarrow> Inbound \<Rightarrow> Inbound" where
  "setUsers users i = i\<lparr>raw := AList.update ''users'' (GMaps users) (raw i)\<rparr>"

text \<open>
  \<^verbatim>\<open>ensureUsersLocked\<close> returns the account list and stores it back when it had to
  convert; \<open>convertUsers\<close> is its loop over a decoded \<^verbatim>\<open>[]interface{}\<close>, which keeps the
  entries that are maps.
\<close>

primrec convertUsers :: "gval list \<Rightarrow> gmap list" where
  "convertUsers [] = []"
| "convertUsers (entry # rest) =
     (case entry of
        GObj userMap \<Rightarrow> userMap # convertUsers rest
      | _ \<Rightarrow> convertUsers rest)"

definition ensureUsersLocked :: "Inbound \<Rightarrow> gmap list \<times> Inbound" where
  "ensureUsersLocked i =
     (case map_of (raw i) ''users'' of
        Some (GMaps users) \<Rightarrow> (users, i)
      | Some (GArr rawUsers) \<Rightarrow>
          (let converted = convertUsers rawUsers
           in (converted, i\<lparr>raw := AList.update ''users'' (GMaps converted) (raw i)\<rparr>))
      | _ \<Rightarrow> ([], i\<lparr>raw := AList.update ''users'' (GMaps []) (raw i)\<rparr>))"

definition appendUser :: "gmap option \<Rightarrow> Inbound \<Rightarrow> Inbound" where
  "appendUser account i =
     (case account of
        None \<Rightarrow> i
      | Some a \<Rightarrow>
          (let (users, i1) = ensureUsersLocked i
           in i1\<lparr>raw := AList.update ''users'' (GMaps (users @ [a])) (raw i1)\<rparr>))"

definition removeUser :: "string \<Rightarrow> Inbound \<Rightarrow> Inbound" where
  "removeUser em i =
     (let (users, i1) = ensureUsersLocked i;
          filtered = filter (\<lambda>user. \<not> (strField user ''name'' = em)) users
      in i1\<lparr>raw := AList.update ''users'' (GMaps filtered) (raw i1)\<rparr>)"

text \<open>The loop of \<^verbatim>\<open>Inbound.syncUsers\<close> over the users, then \<^verbatim>\<open>setUsers\<close>.\<close>

primrec collectAccounts ::
  "Env \<Rightarrow> Inbound \<Rightarrow> User option list \<Rightarrow> gmap list" where
  "collectAccounts E i [] = []"
| "collectAccounts E i (user # users) =
     (if \<not> shouldAttachUser user (tag i) then collectAccounts E i users
      else (case buildAccount E i user of
              Some account \<Rightarrow> account # collectAccounts E i users
            | None \<Rightarrow> collectAccounts E i users))"

definition Inbound_syncUsers ::
  "Env \<Rightarrow> User option list \<Rightarrow> Inbound \<Rightarrow> Inbound" where
  "Inbound_syncUsers E users i = setUsers (collectAccounts E i users) i"

definition Inbound_upsertUser ::
  "Env \<Rightarrow> User option \<Rightarrow> Inbound \<Rightarrow> Inbound" where
  "Inbound_upsertUser E user i =
     (if exclude i then i
      else
        (let em = GetEmail user;
             i1 = removeUser em i
         in if \<not> shouldAttachUser user (tag i1) then i1
            else (case buildAccount E i1 user of
                    Some account \<Rightarrow> appendUser (Some account) i1
                  | None \<Rightarrow> i1)))"

definition Config_syncUsers ::
  "Env \<Rightarrow> User option list \<Rightarrow> Config \<Rightarrow> Config" where
  "Config_syncUsers E users c =
     c\<lparr>inbounds := map (\<lambda>inbound.
          if exclude inbound then inbound else Inbound_syncUsers E users inbound)
        (inbounds c)\<rparr>"

definition Config_upsertUser ::
  "Env \<Rightarrow> User option \<Rightarrow> Config \<Rightarrow> Config" where
  "Config_upsertUser E user c =
     c\<lparr>inbounds := map (Inbound_upsertUser E user) (inbounds c)\<rparr>"

text \<open>The account list an inbound holds, as \<^verbatim>\<open>ensureUsersLocked\<close> reads it.\<close>

definition accounts :: "Inbound \<Rightarrow> gmap list" where
  "accounts i = fst (ensureUsersLocked i)"

section \<open>Construction of the configuration\<close>

text \<open>
  \<^verbatim>\<open>strings.TrimSpace\<close> removes the leading and the trailing white space runes of a string.
  Strings are byte sequences in UTF-8, and \<open>spaceRunes\<close> lists the encodings of the runes
  for which \<^verbatim>\<open>unicode.IsSpace\<close> holds: tab, line feed, vertical tab, form feed, carriage
  return and space, then U+0085, U+00A0, U+1680, U+2000 to U+200A, U+2028, U+2029, U+202F,
  U+205F and U+3000.
\<close>

definition spaceRunes :: "string list" where
  "spaceRunes =
     [[CHR 0x09], [CHR 0x0A], [CHR 0x0B], [CHR 0x0C], [CHR 0x0D], [CHR 0x20],
      [CHR 0xC2, CHR 0x85], [CHR 0xC2, CHR 0xA0],
      [CHR 0xE1, CHR 0x9A, CHR 0x80],
      [CHR 0xE2, CHR 0x80, CHR 0x80], [CHR 0xE2, CHR 0x80, CHR 0x81],
      [CHR 0xE2, CHR 0x80, CHR 0x82], [CHR 0xE2, CHR 0x80, CHR 0x83],
      [CHR 0xE2, CHR 0x80, CHR 0x84], [CHR 0xE2, CHR 0x80, CHR 0x85],
      [CHR 0xE2, CHR 0x80, CHR 0x86], [CHR 0xE2, CHR 0x80, CHR 0x87],
      [CHR 0xE2, CHR 0x80, CHR 0x88], [CHR 0xE2, CHR 0x80, CHR 0x89],
      [CHR 0xE2, CHR 0x80, CHR 0x8A],
      [CHR 0xE2, CHR 0x80, CHR 0xA8], [CHR 0xE2, CHR 0x80, CHR 0xA9],
      [CHR 0xE2, CHR 0x80, CHR 0xAF],
      [CHR 0xE2, CHR 0x81, CHR 0x9F],
      [CHR 0xE3, CHR 0x80, CHR 0x80]]"

text \<open>\<open>trimPrefixes table s\<close> removes from the front of \<open>s\<close> every entry of the table, repeatedly.\<close>

function trimPrefixes :: "string list \<Rightarrow> string \<Rightarrow> string" where
  "trimPrefixes table s =
     (case List.find (\<lambda>e. e \<noteq> [] \<and> take (length e) s = e) table of
        None \<Rightarrow> s
      | Some e \<Rightarrow> trimPrefixes table (drop (length e) s))"
  by pat_completeness auto

termination trimPrefixes
proof (relation "measure (\<lambda>(table, s). length s)")
  show "wf (measure (\<lambda>(table :: string list, s :: string). length s))"
    by simp
next
  fix table :: "string list" and s e :: string
  assume found: "List.find (\<lambda>e. e \<noteq> [] \<and> take (length e) s = e) table = Some e"
  then have e: "e \<noteq> []" and pre: "take (length e) s = e"
    by (auto simp: find_Some_iff)
  from e pre have "s \<noteq> []"
    by auto
  with e show "((table, drop (length e) s), (table, s)) \<in> measure (\<lambda>(table, s). length s)"
    by simp
qed

definition TrimLeftSpace :: "string \<Rightarrow> string" where
  "TrimLeftSpace s = trimPrefixes spaceRunes s"

definition TrimRightSpace :: "string \<Rightarrow> string" where
  "TrimRightSpace s = rev (trimPrefixes (map rev spaceRunes) (rev s))"

definition TrimSpace :: "string \<Rightarrow> string" where
  "TrimSpace s = TrimRightSpace (TrimLeftSpace s)"

text \<open>
  \<^verbatim>\<open>json.Unmarshal\<close> into a \<^verbatim>\<open>map[string]interface{}\<close> accepts an object, accepts
  \<^verbatim>\<open>null\<close> (the map stays nil, which reads as the empty map) and rejects every other value.
\<close>

definition Unmarshal :: "Env \<Rightarrow> string \<Rightarrow> error + gmap" where
  "Unmarshal E data =
     (case jsonDecode E data of
        None \<Rightarrow> Inl ErrUnmarshal
      | Some (GObj m) \<Rightarrow> Inr m
      | Some GNil \<Rightarrow> Inr []
      | Some _ \<Rightarrow> Inl ErrUnmarshal)"

definition sanitizeInboundMap :: "gmap \<Rightarrow> gmap" where
  "sanitizeInboundMap inbound =
     (let m1 = (case map_of inbound ''server'' of
                  Some server \<Rightarrow>
                    AList.delete ''server''
                      (if map_of inbound ''listen'' = None
                       then AList.update ''listen'' server inbound else inbound)
                | None \<Rightarrow> inbound);
          m2 = (case map_of m1 ''server_port'' of
                  Some port \<Rightarrow>
                    AList.delete ''server_port''
                      (if map_of m1 ''listen_port'' = None
                       then AList.update ''listen_port'' port m1 else m1)
                | None \<Rightarrow> m1)
      in AList.delete ''packet_encoding'' m2)"

text \<open>The body of the loop of \<^verbatim>\<open>NewSingBoxConfig\<close> for an entry that is a map.\<close>

definition newInbound :: "Env \<Rightarrow> string list \<Rightarrow> gmap \<Rightarrow> Inbound" where
  "newInbound E excl inboundMap =
     (let tg = strField inboundMap ''tag'';
          protocol0 = strField inboundMap ''type'';
          protocol1 = (if protocol0 = [] then
                         (case map_of inboundMap ''protocol'' of
                            Some (GStr proto) \<Rightarrow> proto
                          | _ \<Rightarrow> protocol0)
                       else protocol0);
          m = sanitizeInboundMap inboundMap
      in \<lparr>tag = tg,
          protocol = ToLower E protocol1,
          raw = (if map_of m ''users'' = None then AList.update ''users'' (GMaps []) m else m),
          exclude = (tg \<in> set excl)\<rparr>)"

primrec buildInbounds :: "Env \<Rightarrow> string list \<Rightarrow> gval list \<Rightarrow> Inbound list" where
  "buildInbounds E excl [] = []"
| "buildInbounds E excl (inboundVal # rest) =
     (case inboundVal of
        GObj inboundMap \<Rightarrow> newInbound E excl inboundMap # buildInbounds E excl rest
      | _ \<Rightarrow> buildInbounds E excl rest)"

definition NewSingBoxConfig :: "Env \<Rightarrow> string \<Rightarrow> string list \<Rightarrow> error + Config" where
  "NewSingBoxConfig E config excl =
     (if TrimSpace config = [] then Inl ErrEmptyConfig
      else
        (case Unmarshal E config of
           Inl err \<Rightarrow> Inl err
         | Inr rawDoc \<Rightarrow>
             (case map_of rawDoc ''inbounds'' of
                Some (GArr inboundsAny) \<Rightarrow>
                  Inr \<lparr>cfg_raw = rawDoc, inbounds = buildInbounds E excl inboundsAny\<rparr>
              | _ \<Rightarrow> Inl ErrNoInbounds)))"

text \<open>
  What the claims call a document with a top-level inbounds array: an object whose field
  \<^verbatim>\<open>inbounds\<close> is an array.
\<close>

definition hasInboundsArray :: "gval option \<Rightarrow> bool" where
  "hasInboundsArray doc =
     (case doc of
        Some (GObj m) \<Rightarrow> (case map_of m ''inbounds'' of Some (GArr xs) \<Rightarrow> True | _ \<Rightarrow> False)
      | _ \<Rightarrow> False)"

section \<open>Serialization\<close>

text \<open>
  \<^verbatim>\<open>ToBytes\<close> serializes \<^verbatim>\<open>Config.raw\<close>, in which the maps of the inbounds are the very maps the
  synchronizer has been writing to. \<open>documentTree\<close> is that tree: the entries of the
  \<^verbatim>\<open>inbounds\<close> array that are maps are, in order, the maps of the inbounds.
\<close>

fun mergeInbounds :: "gval list \<Rightarrow> Inbound list \<Rightarrow> gval list" where
  "mergeInbounds [] ibs = []"
| "mergeInbounds (GObj m # rest) (ib # ibs) = GObj (raw ib) # mergeInbounds rest ibs"
| "mergeInbounds (v # rest) ibs = v # mergeInbounds rest ibs"

definition documentTree :: "Config \<Rightarrow> gval" where
  "documentTree c =
     (case map_of (cfg_raw c) ''inbounds'' of
        Some (GArr entries) \<Rightarrow>
          GObj (AList.update ''inbounds'' (GArr (mergeInbounds entries (inbounds c))) (cfg_raw c))
      | _ \<Rightarrow> GObj (cfg_raw c))"

definition ToBytes :: "Env \<Rightarrow> Config \<Rightarrow> error + string" where
  "ToBytes E c = MarshalIndent E (documentTree c)"

section \<open>The process supervisor\<close>

text \<open>
  \<open>Cmd\<close> is \<^verbatim>\<open>exec.Cmd\<close>: \<open>Process\<close> holds the pid once the command has been started and
  \<open>ProcessState\<close> is set once \<^verbatim>\<open>Wait\<close> has collected the exit. The cancel function of a
  context is the number of its scope.
\<close>

record Cmd =
  Process :: "nat option"
  ProcessState :: bool

record Core =
  executablePath :: string
  assetsPath :: string
  configDir :: string
  process :: "Cmd option"
  restarting :: bool
  logsChan :: nat
  version :: string
  cancelFunc :: "nat option"
  startTime :: nat

text \<open>
  The operating system as the supervisor sees it: the files and directories written, the
  scopes cancelled, the processes started and killed, the warnings logged. What the system
  answers during one call (errors of the file system and of process creation, the new pid,
  the clock) is an argument of the call.
\<close>

record World =
  files :: "string \<Rightarrow> string option"
  dirs :: "string set"
  cancelled :: "nat list"
  spawned :: "(nat \<times> string list) list"
  killed :: "nat list"
  warnings :: "nat list"

record StartOS =
  mkdirErr :: "error option"
  writeErr :: "error option"
  stdoutPipeErr :: "error option"
  stderrPipeErr :: "error option"
  startErr :: "error option"
  newPid :: nat
  newScope :: nat
  now :: nat

record StopOS =
  exitedInTime :: bool

section \<open>Version detection\<close>

text \<open>
  The pattern of \<^verbatim>\<open>refreshVersion\<close> is \<^verbatim>\<open>(\d+\.\d+\.\d+)\<close>. \<open>matchTriple s\<close> is the match
  of the pattern anchored at the start of \<open>s\<close>: each \<^verbatim>\<open>\d+\<close> is greedy and is followed by
  a character that is not a digit, so it takes the whole run of digits. \<open>FindString\<close> tries
  the positions from the left and gives the empty string when no position matches.
\<close>

definition isDigit :: "char \<Rightarrow> bool" where
  "isDigit c = (c \<in> set ''0123456789'')"

definition matchTriple :: "string \<Rightarrow> string option" where
  "matchTriple s =
     (let a = takeWhile isDigit s in
      if a = [] then None
      else
        (case dropWhile isDigit s of
           c1 # r1 \<Rightarrow>
             if c1 \<noteq> CHR ''.'' then None
             else
               (let b = takeWhile isDigit r1 in
                if b = [] then None
                else
                  (case dropWhile isDigit r1 of
                     c2 # r2 \<Rightarrow>
                       if c2 \<noteq> CHR ''.'' then None
                       else
                         (let d = takeWhile isDigit r2 in
                          if d = [] then None
                          else Some (a @ ''.'' @ b @ ''.'' @ d))
                   | [] \<Rightarrow> None))
         | [] \<Rightarrow> None))"

fun FindString :: "string \<Rightarrow> string" where
  "FindString [] = []"
| "FindString (c # cs) =
     (case matchTriple (c # cs) of
        Some m \<Rightarrow> m
      | None \<Rightarrow> FindString cs)"

text \<open>
  The capacity of the log channel is a natural number (\<^verbatim>\<open>make\<close> panics on a negative one).
\<close>

definition refreshVersion :: "Env \<Rightarrow> Core \<Rightarrow> error + string" where
  "refreshVersion E c =
     (case Run E (executablePath c) [''version''] of
        Inl err \<Rightarrow> Inl err
      | Inr output \<Rightarrow>
          (let match = FindString output in
           if match \<noteq> [] then Inr match else Inr (TrimSpace output)))"

definition NewSingBoxCore :: "Env \<Rightarrow> string \<Rightarrow> string \<Rightarrow> string \<Rightarrow> nat \<Rightarrow> error + Core" where
  "NewSingBoxCore E exePath assets cfgDir logBufferSize =
     (let c = \<lparr>executablePath = exePath, assetsPath = assets, configDir = cfgDir,
                process = None, restarting = False, logsChan = logBufferSize,
                version = [], cancelFunc = None, startTime = 0\<rparr>
      in case refreshVersion E c of
           Inl err \<Rightarrow> Inl err
         | Inr v \<Rightarrow> Inr (c\<lparr>version := v\<rparr>))"

section \<open>Start, Stop and Restart\<close>

definition Core_Version :: "Core \<Rightarrow> string" where
  "Core_Version c = version c"

definition Core_Started :: "Core \<Rightarrow> bool" where
  "Core_Started c =
     (case process c of
        None \<Rightarrow> False
      | Some cmd \<Rightarrow> if Process cmd = None then False else \<not> ProcessState cmd)"

definition Core_PID :: "Core \<Rightarrow> nat" where
  "Core_PID c =
     (case process c of
        None \<Rightarrow> 0
      | Some cmd \<Rightarrow> (case Process cmd of None \<Rightarrow> 0 | Some pid \<Rightarrow> pid))"

text \<open>A failed \<^verbatim>\<open>MkdirAll\<close> or \<^verbatim>\<open>WriteFile\<close> leaves the world as it was.\<close>

definition writeConfigFile ::
  "Env \<Rightarrow> StartOS \<Rightarrow> Core \<Rightarrow> string \<Rightarrow> World \<Rightarrow> error option \<times> World" where
  "writeConfigFile E os c bytesConfig w =
     (let pretty = (case Indent E bytesConfig of Some p \<Rightarrow> p | None \<Rightarrow> bytesConfig) in
      case mkdirErr os of
        Some err \<Rightarrow> (Some err, w)
      | None \<Rightarrow>
          (let w1 = w\<lparr>dirs := insert (configDir c) (dirs w)\<rparr>;
               configFile = Join E (configDir c) ''sing-box.json''
           in case writeErr os of
                Some err \<Rightarrow> (Some err, w1)
              | None \<Rightarrow> (None, w1\<lparr>files := (files w1)(configFile \<mapsto> pretty)\<rparr>)))"

text \<open>
  \<^verbatim>\<open>Start\<close> in its two parts: \<open>Start_write\<close> runs before the mutex is taken and gives
  \<open>Some err\<close> when \<^verbatim>\<open>Start\<close> returns there; \<open>Start_locked\<close> is the part under the mutex.
\<close>

definition Start_write ::
  "Env \<Rightarrow> StartOS \<Rightarrow> Config \<Rightarrow> Core \<Rightarrow> World \<Rightarrow> error option \<times> World" where
  "Start_write E os cf c w =
     (case ToBytes E cf of
        Inl err \<Rightarrow> (Some err, w)
      | Inr bytesConfig \<Rightarrow> writeConfigFile E os c bytesConfig w)"

definition Start_locked ::
  "Env \<Rightarrow> StartOS \<Rightarrow> Core \<Rightarrow> World \<Rightarrow> error option \<times> Core \<times> World" where
  "Start_locked E os c w =
     (if (case process c of None \<Rightarrow> False | Some cmd \<Rightarrow> Process cmd \<noteq> None) then
        (Some ErrAlreadyRunning, c, w)
      else
        (case stdoutPipeErr os of
           Some err \<Rightarrow> (Some err, c, w)
         | None \<Rightarrow>
             (case stderrPipeErr os of
                Some err \<Rightarrow> (Some err, c, w)
              | None \<Rightarrow>
                  (case startErr os of
                     Some err \<Rightarrow> (Some err, c, w)
                   | None \<Rightarrow>
                       (None,
                        c\<lparr>cancelFunc := Some (newScope os),
                          process := Some \<lparr>Process = Some (newPid os), ProcessState = False\<rparr>,
                          startTime := now os\<rparr>,
                        w\<lparr>spawned :=
                             spawned w @
                               [(newPid os,
                                 [executablePath c, ''run'', ''-c'',
                                  Join E (configDir c) ''sing-box.json''])]\<rparr>)))))"

definition Core_Start ::
  "Env \<Rightarrow> StartOS \<Rightarrow> Config \<Rightarrow> Core \<Rightarrow> World \<Rightarrow> error option \<times> Core \<times> World" where
  "Core_Start E os cf c w =
     (case Start_write E os cf c w of
        (Some err, w1) \<Rightarrow> (Some err, c, w1)
      | (None, w1) \<Rightarrow> Start_locked E os c w1)"

definition Core_Stop :: "StopOS \<Rightarrow> Core \<Rightarrow> World \<Rightarrow> Core \<times> World" where
  "Core_Stop os c w =
     (let (c1, w1) = (case cancelFunc c of
                        Some scope \<Rightarrow> (c\<lparr>cancelFunc := None\<rparr>, w\<lparr>cancelled := cancelled w @ [scope]\<rparr>)
                      | None \<Rightarrow> (c, w))
      in case process c1 of
           None \<Rightarrow> (c1, w1)
         | Some cmd \<Rightarrow>
             (case Process cmd of
                None \<Rightarrow> (c1, w1)
              | Some pid \<Rightarrow>
                  (let w2 = w1\<lparr>killed := killed w1 @ [pid]\<rparr>;
                       w3 = (if exitedInTime os then w2 else w2\<lparr>warnings := warnings w2 @ [pid]\<rparr>)
                   in (c1\<lparr>process := None\<rparr>, w3))))"

text \<open>
  \<^verbatim>\<open>Restart\<close>: the test and the setting of the flag are one step under the mutex, the
  deferred function clears the flag after \<^verbatim>\<open>Start\<close> has returned.
\<close>

definition Restart_enter :: "Core \<Rightarrow> error + Core" where
  "Restart_enter c =
     (if restarting c then Inl ErrAlreadyRestarting else Inr (c\<lparr>restarting := True\<rparr>))"

definition Restart_exit :: "Core \<Rightarrow> Core" where
  "Restart_exit c = c\<lparr>restarting := False\<rparr>"

definition Core_Restart ::
  "Env \<Rightarrow> StopOS \<Rightarrow> StartOS \<Rightarrow> Config \<Rightarrow> Core \<Rightarrow> World \<Rightarrow> error option \<times> Core \<times> World" where
  "Core_Restart E osStop osStart cf c w =
     (case Restart_enter c of
        Inl err \<Rightarrow> (Some err, c, w)
      | Inr c1 \<Rightarrow>
          (let (c2, w2) = Core_Stop osStop c1 w;
               (err, c3, w3) = Core_Start E osStart cf c2 w2
           in (err, Restart_exit c3, w3)))"

section \<open>The sing-box backend\<close>

text \<open>
  \<open>core\<close> is the pointer to the supervisor, \<open>None\<close> once \<^verbatim>\<open>Shutdown\<close> has cleared it. A
  call ends by returning or by a panic.
\<close>

record NodeConfig =
  SingBoxExecutablePath :: string
  SingBoxAssetsPath :: string
  GeneratedConfigPath :: string
  LogBufferSize :: nat
  Debug :: bool

record SingBox =
  config :: Config
  cfg :: NodeConfig
  core :: "Core option"

datatype 'a outcome = Panic | Return 'a

text \<open>
  \<^verbatim>\<open>NewSingBox\<close> takes the configuration and the users from the context, where the
  configuration is absent unless \<^verbatim>\<open>NewSingBoxConfig\<close> has returned one.
\<close>

definition NewSingBox ::
  "Env \<Rightarrow> StartOS \<Rightarrow> Config option \<Rightarrow> User option list \<Rightarrow> NodeConfig option \<Rightarrow> World
     \<Rightarrow> (error + SingBox) \<times> World" where
  "NewSingBox E os ctxConfig ctxUsers nodeCfg w =
     (case nodeCfg of
        None \<Rightarrow> (Inl ErrConfigRequired, w)
      | Some nc \<Rightarrow>
     (case ctxConfig of
        None \<Rightarrow> (Inl ErrConfigNotInitialized, w)
      | Some sbConfig0 \<Rightarrow>
     (let sbConfig = Config_syncUsers E ctxUsers sbConfig0 in
      case Abs E (SingBoxExecutablePath nc) of
        Inl err \<Rightarrow> (Inl err, w)
      | Inr executableAbsolutePath \<Rightarrow>
     (case Abs E (SingBoxAssetsPath nc) of
        Inl err \<Rightarrow> (Inl err, w)
      | Inr assetsAbsolutePath \<Rightarrow>
     (case Abs E (GeneratedConfigPath nc) of
        Inl err \<Rightarrow> (Inl err, w)
      | Inr configAbsolutePath \<Rightarrow>
     (case NewSingBoxCore E executableAbsolutePath assetsAbsolutePath configAbsolutePath
             (LogBufferSize nc) of
        Inl err \<Rightarrow> (Inl err, w)
      | Inr c \<Rightarrow>
     (case Core_Start E os sbConfig c w of
        (Some err, c1, w1) \<Rightarrow> (Inl err, w1)
      | (None, c1, w1) \<Rightarrow> (Inr \<lparr>config = sbConfig, cfg = nc, core = Some c1\<rparr>, w1))))))))"

definition SingBox_Version :: "SingBox \<Rightarrow> string" where
  "SingBox_Version s = (case core s of None \<Rightarrow> [] | Some c \<Rightarrow> Core_Version c)"

definition SingBox_Started :: "SingBox \<Rightarrow> bool" where
  "SingBox_Started s = (case core s of None \<Rightarrow> False | Some c \<Rightarrow> Core_Started c)"

definition SingBox_Restart ::
  "Env \<Rightarrow> StopOS \<Rightarrow> StartOS \<Rightarrow> SingBox \<Rightarrow> World \<Rightarrow> error option \<times> SingBox \<times> World" where
  "SingBox_Restart E osStop osStart s w =
     (case core s of
        None \<Rightarrow> (Some ErrCoreNotInitialized, s, w)
      | Some c \<Rightarrow>
          (let (err, c1, w1) = Core_Restart E osStop osStart (config s) c w
           in (err, s\<lparr>core := Some c1\<rparr>, w1)))"

definition SingBox_Shutdown :: "StopOS \<Rightarrow> SingBox \<Rightarrow> World \<Rightarrow> SingBox \<times> World" where
  "SingBox_Shutdown osStop s w =
     (case core s of
        Some c \<Rightarrow> (let (c1, w1) = Core_Stop osStop c w in (s\<lparr>core := None\<rparr>, w1))
      | None \<Rightarrow> (s, w))"

text \<open>
  \<^verbatim>\<open>s.core.Restart(...)\<close> on the pointer: \<^verbatim>\<open>Restart\<close> starts with \<^verbatim>\<open>c.mu.Lock()\<close>, which
  dereferences the receiver, so the call on a nil pointer panics.
\<close>

definition Restart_ptr ::
  "Env \<Rightarrow> StopOS \<Rightarrow> StartOS \<Rightarrow> Config \<Rightarrow> Core option \<Rightarrow> World
     \<Rightarrow> (error option \<times> Core \<times> World) outcome" where
  "Restart_ptr E osStop osStart cf cptr w =
     (case cptr of
        None \<Rightarrow> Panic
      | Some c \<Rightarrow> Return (Core_Restart E osStop osStart cf c w))"

definition SingBox_SyncUser ::
  "Env \<Rightarrow> StopOS \<Rightarrow> StartOS \<Rightarrow> User option \<Rightarrow> SingBox \<Rightarrow> World
     \<Rightarrow> (error option \<times> SingBox \<times> World) outcome" where
  "SingBox_SyncUser E osStop osStart user s w =
     (case user of
        None \<Rightarrow> Return (Some ErrUserPayloadEmpty, s, w)
      | Some u \<Rightarrow>
          (let s1 = s\<lparr>config := Config_upsertUser E user (config s)\<rparr> in
           case Restart_ptr E osStop osStart (config s1) (core s1) w of
             Panic \<Rightarrow> Panic
           | Return (err, c1, w1) \<Rightarrow> Return (err, s1\<lparr>core := Some c1\<rparr>, w1)))"

definition SingBox_SyncUsers ::
  "Env \<Rightarrow> StopOS \<Rightarrow> StartOS \<Rightarrow> User option list \<Rightarrow> SingBox \<Rightarrow> World
     \<Rightarrow> (error option \<times> SingBox \<times> World) outcome" where
  "SingBox_SyncUsers E osStop osStart users s w =
     (let s1 = s\<lparr>config := Config_syncUsers E users (config s)\<rparr> in
      case Restart_ptr E osStop osStart (config s1) (core s1) w of
        Panic \<Rightarrow> Panic
      | Return (err, c1, w1) \<Rightarrow> Return (err, s1\<lparr>core := Some c1\<rparr>, w1))"

section \<open>Concurrent calls on one supervisor\<close>

text \<open>
  Several goroutines call \<^verbatim>\<open>Restart\<close>, \<^verbatim>\<open>Start\<close> and \<^verbatim>\<open>Stop\<close> on the same supervisor. A
  call advances by the steps that the mutex makes atomic, and \<open>pc\<close> says where a call
  stands: before the test of the flag, before \<^verbatim>\<open>Stop\<close>, before and after the file is written
  in \<^verbatim>\<open>Start\<close>, before the deferred function, returned.
\<close>

datatype pc =
    RestartEntry Config
  | RestartStop Config
  | RestartWrite Config
  | RestartLocked Config
  | RestartDefer "error option"
  | StartWrite Config
  | StartLocked Config
  | StopCall
  | Returned "error option"

fun thread_step ::
  "Env \<Rightarrow> StopOS \<Rightarrow> StartOS \<Rightarrow> pc \<Rightarrow> Core \<Rightarrow> World \<Rightarrow> (pc \<times> Core \<times> World) option" where
  "thread_step E osStop osStart (RestartEntry cf) c w =
     (case Restart_enter c of
        Inl err \<Rightarrow> Some (Returned (Some err), c, w)
      | Inr c1 \<Rightarrow> Some (RestartStop cf, c1, w))"
| "thread_step E osStop osStart (RestartStop cf) c w =
     (let (c1, w1) = Core_Stop osStop c w in Some (RestartWrite cf, c1, w1))"
| "thread_step E osStop osStart (RestartWrite cf) c w =
     (case Start_write E osStart cf c w of
        (Some err, w1) \<Rightarrow> Some (RestartDefer (Some err), c, w1)
      | (None, w1) \<Rightarrow> Some (RestartLocked cf, c, w1))"
| "thread_step E osStop osStart (RestartLocked cf) c w =
     (let (err, c1, w1) = Start_locked E osStart c w in Some (RestartDefer err, c1, w1))"
| "thread_step E osStop osStart (RestartDefer err) c w = Some (Returned err, Restart_exit c, w)"
| "thread_step E osStop osStart (StartWrite cf) c w =
     (case Start_write E osStart cf c w of
        (Some err, w1) \<Rightarrow> Some (Returned (Some err), c, w1)
      | (None, w1) \<Rightarrow> Some (StartLocked cf, c, w1))"
| "thread_step E osStop osStart (StartLocked cf) c w =
     (let (err, c1, w1) = Start_locked E osStart c w in Some (Returned err, c1, w1))"
| "thread_step E osStop osStart StopCall c w =
     (let (c1, w1) = Core_Stop osStop c w in Some (Returned None, c1, w1))"
| "thread_step E osStop osStart (Returned err) c w = None"

fun isEntry :: "pc \<Rightarrow> bool" where
  "isEntry (RestartEntry cf) = True"
| "isEntry (StartWrite cf) = True"
| "isEntry StopCall = True"
| "isEntry p = False"

text \<open>A call is inside \<^verbatim>\<open>Restart\<close> from the setting of the flag to the deferred function.\<close>

fun inRestart :: "pc \<Rightarrow> bool" where
  "inRestart (RestartStop cf) = True"
| "inRestart (RestartWrite cf) = True"
| "inRestart (RestartLocked cf) = True"
| "inRestart (RestartDefer err) = True"
| "inRestart p = False"

text \<open>
  The system: the calls, the supervisor, the world. A step is the arrival of a new call or
  one step of one call, whatever the operating system answers.
\<close>

inductive step :: "Env \<Rightarrow> pc list \<times> Core \<times> World \<Rightarrow> pc list \<times> Core \<times> World \<Rightarrow> bool"
  for E :: Env where
  arrive: "isEntry p \<Longrightarrow> step E (ts, c, w) (ts @ [p], c, w)"
| advance: "i < length ts \<Longrightarrow> thread_step E osStop osStart (ts ! i) c w = Some (p, c1, w1)
     \<Longrightarrow> step E (ts, c, w) (ts[i := p], c1, w1)"

text \<open>A supervisor starts with the flag down, as \<^verbatim>\<open>NewSingBoxCore\<close> builds it.\<close>

inductive reachable :: "Env \<Rightarrow> pc list \<times> Core \<times> World \<Rightarrow> bool"
  for E :: Env where
  start: "\<not> restarting c \<Longrightarrow> reachable E ([], c, w)"
| after: "reachable E s \<Longrightarrow> step E s s1 \<Longrightarrow> reachable E s1"

text \<open>
  \<open>run_thread n\<close> lets one call take up to \<open>n\<close> steps with no other call in between. The
  flag invariant: the number of calls inside \<^verbatim>\<open>Restart\<close> is one when the flag is up and zero
  when it is down.
\<close>

fun run_thread ::
  "nat \<Rightarrow> Env \<Rightarrow> StopOS \<Rightarrow> StartOS \<Rightarrow> pc \<Rightarrow> Core \<Rightarrow> World \<Rightarrow> pc \<times> Core \<times> World" where
  "run_thread 0 E osStop osStart p c w = (p, c, w)"
| "run_thread (Suc n) E osStop osStart p c w =
     (case thread_step E osStop osStart p c w of
        None \<Rightarrow> (p, c, w)
      | Some (p1, c1, w1) \<Rightarrow> run_thread n E osStop osStart p1 c1 w1)"

definition flagInv :: "pc list \<times> Core \<times> World \<Rightarrow> bool" where
  "flagInv s = (case s of (ts, c, w) \<Rightarrow> length (filter inRestart ts) = (if restarting c then 1 else 0))"

section \<open>The stats sampler of the controller\<close>

text \<open>
  \<^verbatim>\<open>recordSystemStats\<close> loops on a \<^verbatim>\<open>select\<close> with a \<^verbatim>\<open>default\<close> branch: each iteration
  polls \<^verbatim>\<open>ctx.Done()\<close> and, when the context is not cancelled, samples and stores. The run is
  observed over the iterations given: for each, whether the context was found cancelled and
  what \<^verbatim>\<open>tools.GetSystemStats\<close> answered. The trace lists what the loop did; \<open>TimerWait\<close>
  stands for a receive from a timer or a ticker.
\<close>

datatype event = Sample | TimerWait

primrec recordSystemStats :: "(bool \<times> (error + 's)) list \<Rightarrow> 's option \<Rightarrow> event list \<times> 's option" where
  "recordSystemStats [] st = ([], st)"
| "recordSystemStats (it # its) st =
     (if fst it then ([], st)
      else
        (let st1 = (case snd it of Inl err \<Rightarrow> st | Inr stats \<Rightarrow> Some stats);
             (tr, st2) = recordSystemStats its st1
         in (Sample # tr, st2)))"

text \<open>A trace is rate-limited when a wait on a timer separates any two consecutive samplings.\<close>

fun rateLimited :: "event list \<Rightarrow> bool" where
  "rateLimited (Sample # Sample # es) = False"
| "rateLimited (e # es) = rateLimited es"
| "rateLimited [] = True"

section \<open>The words of the specification\<close>

text \<open>
  The credential variant of a user matches the protocol family of an inbound: an
  identifier for vmess and vless, a password for trojan, a password and a method for
  shadowsocks. A user qualifies for an inbound when its membership set holds the tag of the
  inbound and its credentials match.
\<close>

definition credentialMatches :: "string \<Rightarrow> User option \<Rightarrow> bool" where
  "credentialMatches proto user =
     ((proto = ''vmess'' \<and> GetVmess (GetProxies user) \<noteq> None) \<or>
      (proto = ''vless'' \<and> GetVless (GetProxies user) \<noteq> None) \<or>
      (proto = ''trojan'' \<and> GetTrojan (GetProxies user) \<noteq> None) \<or>
      (proto = ''shadowsocks'' \<and> GetShadowsocks (GetProxies user) \<noteq> None))"

definition qualifies :: "Inbound \<Rightarrow> User option \<Rightarrow> bool" where
  "qualifies i user =
     (user \<noteq> None \<and> tag i \<in> set (GetInbounds user) \<and> credentialMatches (protocol i) user)"

text \<open>
  A dotted triple is three non-empty runs of digits separated by two dots. The first one
  of an output is the occurrence that starts leftmost and, among those that start there,
  is the longest.
\<close>

definition dottedTriple :: "string \<Rightarrow> bool" where
  "dottedTriple m =
     (\<exists>a b d. m = a @ ''.'' @ b @ ''.'' @ d \<and> a \<noteq> [] \<and> b \<noteq> [] \<and> d \<noteq> [] \<and>
        (\<forall>c \<in> set a. isDigit c) \<and> (\<forall>c \<in> set b. isDigit c) \<and> (\<forall>c \<in> set d. isDigit c))"

definition firstTriple :: "string \<Rightarrow> string \<Rightarrow> bool" where
  "firstTriple output m =
     (\<exists>pre post. output = pre @ m @ post \<and> dottedTriple m \<and>
        (\<forall>pre1 m1 post1. output = pre1 @ m1 @ post1 \<and> dottedTriple m1 \<longrightarrow>
           length pre < length pre1 \<or> (length pre1 = length pre \<and> length m1 \<le> length m)))"

definition hasTriple :: "string \<Rightarrow> bool" where
  "hasTriple output = (\<exists>pre m post. output = pre @ m @ post \<and> dottedTriple m)"

section \<open>Examples\<close>

text \<open>
  An environment for the examples: the decoder knows the two documents
  \<^verbatim>\<open>{"inbounds":[]}\<close> and \<^verbatim>\<open>{}\<close>, the strings of the examples are in lower case already, the
  serializer prints \<^verbatim>\<open>{}\<close> for every tree, and the executable prints
  \<^verbatim>\<open>sing-box version 1.8.0\<close>. The configuration is that of the document
  \<^verbatim>\<open>{"inbounds":[{"tag":"in1","type":"vmess"}]}\<close>.
\<close>

definition emptyInboundsDoc :: string where
  "emptyInboundsDoc = [CHR ''{'', CHR 0x22] @ ''inbounds'' @ [CHR 0x22] @ '':[]}''"

definition exampleEnv :: Env where
  "exampleEnv =
     \<lparr>EnsureBase64Password = (\<lambda>password method. password),
      jsonDecode = (\<lambda>text.
         if text = emptyInboundsDoc then Some (GObj [(''inbounds'', GArr [])])
         else if text = ''{}'' then Some (GObj [])
         else None),
      ToLower = (\<lambda>s. s),
      MarshalIndent = (\<lambda>v. Inr ''{}''),
      Indent = (\<lambda>s. Some s),
      Join = (\<lambda>dir name. dir @ ''/'' @ name),
      Abs = (\<lambda>path. Inr path),
      Run = (\<lambda>path args. Inr ''sing-box version 1.8.0'')\<rparr>"

definition userA :: User where
  "userA = \<lparr>email = ''a@x'',
            proxies = Some \<lparr>vmess = Some \<lparr>vmess_id = ''UUID1''\<rparr>, vless = None,
                            trojan = None, shadowsocks = None\<rparr>,
            user_inbounds = [''in1'']\<rparr>"

definition exampleConfig :: "string list \<Rightarrow> Config" where
  "exampleConfig excl =
     \<lparr>cfg_raw = [(''inbounds'', GArr [GObj [(''tag'', GStr ''in1''), (''type'', GStr ''vmess'')]])],
      inbounds = buildInbounds exampleEnv excl [GObj [(''tag'', GStr ''in1''), (''type'', GStr ''vmess'')]]\<rparr>"

text \<open>
  A configuration whose only inbound is excluded and already holds two accounts of the
  identity \<^verbatim>\<open>a@x\<close>, and a second user of that identity.
\<close>

definition staleConfig :: Config where
  "staleConfig =
     \<lparr>cfg_raw = [(''inbounds'', GArr [GObj [(''tag'', GStr ''in1''), (''type'', GStr ''vmess''),
          (''users'', GArr [GObj [(''name'', GStr ''a@x''), (''uuid'', GStr ''OLD1'')],
                            GObj [(''name'', GStr ''a@x''), (''uuid'', GStr ''OLD2'')]])]])],
      inbounds = buildInbounds exampleEnv [''in1'']
        [GObj [(''tag'', GStr ''in1''), (''type'', GStr ''vmess''),
          (''users'', GArr [GObj [(''name'', GStr ''a@x''), (''uuid'', GStr ''OLD1'')],
                            GObj [(''name'', GStr ''a@x''), (''uuid'', GStr ''OLD2'')]])]]\<rparr>"

definition userB :: User where
  "userB = \<lparr>email = ''a@x'',
            proxies = Some \<lparr>vmess = Some \<lparr>vmess_id = ''UUID2''\<rparr>, vless = None,
                            trojan = None, shadowsocks = None\<rparr>,
            user_inbounds = [''in1'']\<rparr>"

text \<open>
  A supervisor with a live subprocess and one with none, a world in which the configuration
  file exists, and answers of the operating system: all well, the disk full, the
  executable refused.
\<close>

definition runningCore :: Core where
  "runningCore =
     \<lparr>executablePath = ''/usr/local/bin/sing-box'', assetsPath = ''/usr/local/share/sing-box'',
      configDir = ''/var/lib/pg-node/generated'',
      process = Some \<lparr>Process = Some 4242, ProcessState = False\<rparr>,
      restarting = False, logsChan = 1000, version = ''1.8.0'',
      cancelFunc = Some 1, startTime = 100\<rparr>"

definition idleCore :: Core where
  "idleCore = runningCore\<lparr>process := None, cancelFunc := None, startTime := 0\<rparr>"

definition oldWorld :: World where
  "oldWorld =
     \<lparr>files = [''/var/lib/pg-node/generated/sing-box.json'' \<mapsto> ''old''],
      dirs = {''/var/lib/pg-node/generated''},
      cancelled = [], spawned = [(4242, [])], killed = [], warnings = []\<rparr>"

definition okOS :: StartOS where
  "okOS = \<lparr>mkdirErr = None, writeErr = None, stdoutPipeErr = None, stderrPipeErr = None,
            startErr = None, newPid = 4343, newScope = 2, now = 200\<rparr>"

definition diskFullOS :: StartOS where
  "diskFullOS = okOS\<lparr>writeErr := Some (ErrOS ''no space left on device'')\<rparr>"

definition failingOS :: StartOS where
  "failingOS = okOS\<lparr>startErr := Some (ErrOS ''exec format error'')\<rparr>"

definition exampleSingBox :: SingBox where
  "exampleSingBox =
     \<lparr>config = exampleConfig [],
      cfg = \<lparr>SingBoxExecutablePath = ''/usr/local/bin/sing-box'',
              SingBoxAssetsPath = ''/usr/local/share/sing-box'',
              GeneratedConfigPath = ''/var/lib/pg-node/generated'',
              LogBufferSize = 1000, Debug = False\<rparr>,
      core = Some runningCore\<rparr>"

text \<open>An executable that prints no version number.\<close>

definition devEnv :: Env where
  "devEnv = exampleEnv\<lparr>Run := (\<lambda>path args. Inr '' dev-build '')\<rparr>"

section \<open>Properties of the synchronizer\<close>

lemma update_update_same: "AList.update k v (AList.update k w al) = AList.update k v al"
  by (induction al) auto

lemma map_of_update_same: "map_of (AList.update k v al) k = Some v"
  by (simp add: update_conv')

lemma accounts_set: "accounts (i\<lparr>raw := AList.update ''users'' (GMaps xs) m\<rparr>) = xs"
  by (simp add: accounts_def ensureUsersLocked_def map_of_update_same)

lemma buildAccount_Some_iff:
  "(buildAccount E i u \<noteq> None) = credentialMatches (protocol i) u"
  by (auto simp: buildAccount_def credentialMatches_def Let_def split: option.splits)

lemma buildAccount_name:
  "buildAccount E i u = Some a \<Longrightarrow> strField a ''name'' = GetEmail u"
  by (auto simp: buildAccount_def Let_def strField_def split: if_splits option.splits)

lemma collectAccounts_spec:
  "map Some (collectAccounts E i users) = map (buildAccount E i) (filter (qualifies i) users)"
proof (induction users)
  case Nil
  then show ?case by simp
next
  case (Cons u us)
  have q: "qualifies i u = (shouldAttachUser u (tag i) \<and> buildAccount E i u \<noteq> None)"
    unfolding qualifies_def buildAccount_Some_iff[of E, symmetric]
    by (cases u) (auto simp: shouldAttachUser_def GetInbounds_def)
  show ?case
  proof (cases "shouldAttachUser u (tag i)")
    case False
    with Cons q show ?thesis by simp
  next
    case True
    with Cons q show ?thesis by (cases "buildAccount E i u") auto
  qed
qed

text \<open>The names of the accounts collected are the emails of the qualifying entries, in order.\<close>

lemma collectAccounts_names:
  "map (\<lambda>a. strField a ''name'') (collectAccounts E i users) =
     map GetEmail (filter (qualifies i) users)"
proof (induction users)
  case Nil
  then show ?case by simp
next
  case (Cons u us)
  have q: "qualifies i u = (shouldAttachUser u (tag i) \<and> buildAccount E i u \<noteq> None)"
    unfolding qualifies_def buildAccount_Some_iff[of E, symmetric]
    by (cases u) (auto simp: shouldAttachUser_def GetInbounds_def)
  show ?case
  proof (cases "shouldAttachUser u (tag i)")
    case False
    with Cons q show ?thesis by simp
  next
    case att: True
    show ?thesis
    proof (cases "buildAccount E i u")
      case None
      with Cons q att show ?thesis by simp
    next
      case (Some a)
      from buildAccount_name[OF Some] Some Cons q att show ?thesis by simp
    qed
  qed
qed

text \<open>
  Claim C1, amended. For every list of users and every configuration, after \<^verbatim>\<open>syncUsers\<close>
  the configuration has the same inbounds with the same tags, protocols and exclusion flags;
  an excluded inbound is unchanged; the account list of an inbound that is not excluded
  holds exactly one account for each entry of the list that qualifies for it, in the order
  of the list: the accounts are those built for these entries, each is built, and their
  names are the emails of these entries. Hence when the qualifying entries have distinct
  identities the inbound holds exactly one account per user; an identity listed twice gets
  two accounts, since the list is not de-duplicated.
\<close>

theorem syncUsers_accounts:
  "k < length (inbounds c) \<Longrightarrow>
     length (inbounds (Config_syncUsers E users c)) = length (inbounds c) \<and>
     tag (inbounds (Config_syncUsers E users c) ! k) = tag (inbounds c ! k) \<and>
     protocol (inbounds (Config_syncUsers E users c) ! k) = protocol (inbounds c ! k) \<and>
     exclude (inbounds (Config_syncUsers E users c) ! k) = exclude (inbounds c ! k) \<and>
     (if exclude (inbounds c ! k)
      then inbounds (Config_syncUsers E users c) ! k = inbounds c ! k
      else map Some (accounts (inbounds (Config_syncUsers E users c) ! k)) =
             map (buildAccount E (inbounds c ! k)) (filter (qualifies (inbounds c ! k)) users) \<and>
           map (\<lambda>a. strField a ''name'') (accounts (inbounds (Config_syncUsers E users c) ! k)) =
             map GetEmail (filter (qualifies (inbounds c ! k)) users) \<and>
           (distinct (map GetEmail (filter (qualifies (inbounds c ! k)) users)) \<longrightarrow>
            distinct (map (\<lambda>a. strField a ''name'')
                        (accounts (inbounds (Config_syncUsers E users c) ! k)))))"
  by (simp add: Config_syncUsers_def Inbound_syncUsers_def setUsers_def accounts_set
      collectAccounts_spec collectAccounts_names)

lemmas example_defs =
  exampleConfig_def newInbound_def exampleEnv_def userA_def strField_def sanitizeInboundMap_def
  shouldAttachUser_def GetInbounds_def buildAccount_def GetProxies_def GetVmess_def GetEmail_def
  qualifies_def credentialMatches_def

lemma exampleConfig_inbounds:
  "inbounds (exampleConfig excl) =
     [\<lparr>tag = ''in1'', protocol = ''vmess'',
       raw = [(''tag'', GStr ''in1''), (''type'', GStr ''vmess''), (''users'', GMaps [])],
       exclude = (''in1'' \<in> set excl)\<rparr>]"
  by (simp add: exampleConfig_def newInbound_def exampleEnv_def strField_def
      sanitizeInboundMap_def Let_def)

text \<open>
  Claim C1 as stated fails: \<^verbatim>\<open>Inbound.syncUsers\<close> appends one account for every qualifying
  entry of the list and never looks for an identity it has already seen, so the user
  \<^verbatim>\<open>a@x\<close> listed twice gets two accounts in \<^verbatim>\<open>in1\<close>.
\<close>

theorem syncUsers_duplicate_counterexample:
  "accounts (inbounds (Config_syncUsers exampleEnv [Some userA, Some userA] (exampleConfig [])) ! 0) =
     [[(''name'', GStr ''a@x''), (''uuid'', GStr ''UUID1'')],
      [(''name'', GStr ''a@x''), (''uuid'', GStr ''UUID1'')]]"
  by (simp add: Config_syncUsers_def Inbound_syncUsers_def setUsers_def accounts_set
      exampleConfig_inbounds shouldAttachUser_def GetInbounds_def buildAccount_def GetProxies_def
      GetVmess_def GetEmail_def userA_def Let_def accounts_def ensureUsersLocked_def)

text \<open>
  The scenario of the specification: the user \<^verbatim>\<open>a@x\<close> of inbound \<^verbatim>\<open>in1\<close> gets one vmess
  account, and nothing is written when \<^verbatim>\<open>in1\<close> is excluded.
\<close>

theorem syncUsers_accounts_witness:
  "accounts (inbounds (Config_syncUsers exampleEnv [Some userA, None] (exampleConfig [])) ! 0) =
     [[(''name'', GStr ''a@x''), (''uuid'', GStr ''UUID1'')]] \<and>
   inbounds (Config_syncUsers exampleEnv [Some userA, None] (exampleConfig [''in1''])) ! 0 =
     inbounds (exampleConfig [''in1'']) ! 0"
proof -
  have k: "0 < length (inbounds (exampleConfig excl))" for excl
    by (simp add: exampleConfig_inbounds)
  have ex: "exclude (inbounds (exampleConfig [''in1'']) ! 0)"
       "\<not> exclude (inbounds (exampleConfig []) ! 0)"
    by (simp_all add: exampleConfig_inbounds)
  from syncUsers_accounts[where c="exampleConfig []" and k=0 and E=exampleEnv and users="[Some userA, None]", OF k] ex(2)
  have "map Some (accounts (inbounds (Config_syncUsers exampleEnv [Some userA, None] (exampleConfig [])) ! 0)) =
     map (buildAccount exampleEnv (inbounds (exampleConfig []) ! 0))
       (filter (qualifies (inbounds (exampleConfig []) ! 0)) [Some userA, None])"
    by simp
  also have "\<dots> = map Some [[(''name'', GStr ''a@x''), (''uuid'', GStr ''UUID1'')]]"
    by (simp add: exampleConfig_inbounds example_defs Let_def)
  finally have a: "accounts (inbounds (Config_syncUsers exampleEnv [Some userA, None] (exampleConfig [])) ! 0) =
     [[(''name'', GStr ''a@x''), (''uuid'', GStr ''UUID1'')]]"
    by (simp add: map_eq_Cons_conv)
  from syncUsers_accounts[where c="exampleConfig [''in1'']" and k=0 and E=exampleEnv and users="[Some userA, None]", OF k] ex(1)
  have b: "inbounds (Config_syncUsers exampleEnv [Some userA, None] (exampleConfig [''in1''])) ! 0 =
     inbounds (exampleConfig [''in1'']) ! 0"
    by simp
  from a b show ?thesis by simp
qed



section \<open>Upserting one user\<close>

lemma ensure_cases:
  "ensureUsersLocked i = (accounts i, i\<lparr>raw := AList.update ''users'' (GMaps (accounts i)) (raw i)\<rparr>)
   \<or> ensureUsersLocked i = (accounts i, i)"
  by (auto simp: accounts_def ensureUsersLocked_def Let_def split: option.splits gval.splits)

lemma removeUser_raw:
  "removeUser em i =
     i\<lparr>raw := AList.update ''users''
              (GMaps (filter (\<lambda>a. strField a ''name'' \<noteq> em) (accounts i))) (raw i)\<rparr>"
  using ensure_cases[of i]
  by (auto simp: removeUser_def update_update_same)

lemma appendUser_raw:
  "appendUser (Some a) i = i\<lparr>raw := AList.update ''users'' (GMaps (accounts i @ [a])) (raw i)\<rparr>"
  using ensure_cases[of i]
  by (auto simp: appendUser_def update_update_same)

lemma buildAccount_raw [simp]:
  "buildAccount E (i\<lparr>raw := x\<rparr>) u = buildAccount E i u"
  unfolding buildAccount_def by (simp cong: if_cong)

text \<open>The account that an upsert appends to an inbound: none or one.\<close>

lemma upsert_raw:
  "Inbound_upsertUser E u i =
    (if exclude i then i else
     i\<lparr>raw := AList.update ''users''
        (GMaps (filter (\<lambda>a. strField a ''name'' \<noteq> GetEmail u) (accounts i) @
                (if shouldAttachUser u (tag i)
                 then (case buildAccount E i u of Some a \<Rightarrow> [a] | None \<Rightarrow> []) else [])))
        (raw i)\<rparr>)"
  by (auto simp: Inbound_upsertUser_def Let_def removeUser_raw appendUser_raw accounts_set
      update_update_same split: option.splits)

lemma upsert_idem:
  "Inbound_upsertUser E u (Inbound_upsertUser E u i) = Inbound_upsertUser E u i"
proof (cases "exclude i")
  case True
  then show ?thesis by (simp add: Inbound_upsertUser_def)
next
  case ne: False
  show ?thesis
  proof (cases "shouldAttachUser u (tag i)")
    case False
    with ne show ?thesis
      by (simp add: upsert_raw accounts_set update_update_same)
  next
    case att: True
    show ?thesis
    proof (cases "buildAccount E i u")
      case None
      with ne att show ?thesis
        by (simp add: upsert_raw accounts_set update_update_same)
    next
      case (Some a)
      from buildAccount_name[OF Some] Some ne att show ?thesis
        by (simp add: upsert_raw accounts_set update_update_same)
    qed
  qed
qed

lemma upsert_fields:
  "tag (Inbound_upsertUser E u i) = tag i"
  "protocol (Inbound_upsertUser E u i) = protocol i"
  "exclude (Inbound_upsertUser E u i) = exclude i"
  by (simp_all add: upsert_raw)

lemma upsert_count:
  assumes ne: "\<not> exclude i"
  shows "length (filter (\<lambda>a. strField a ''name'' = GetEmail u)
           (accounts (Inbound_upsertUser E u i))) \<le> 1"
proof (cases "shouldAttachUser u (tag i)")
  case False
  with ne show ?thesis
    by (simp add: upsert_raw accounts_set)
next
  case att: True
  show ?thesis
  proof (cases "buildAccount E i u")
    case None
    with ne att show ?thesis
      by (simp add: upsert_raw accounts_set)
  next
    case (Some a)
    from buildAccount_name[OF Some] Some ne att show ?thesis
      by (simp add: upsert_raw accounts_set)
  qed
qed

text \<open>
  Claim C2, amended. For every user and every configuration, \<^verbatim>\<open>upsertUser\<close> keeps the
  inbounds; it leaves an excluded inbound as it is; in an inbound that is not excluded it
  removes the accounts whose name is the email of the user and then appends the account
  built for the user when the membership set of the user holds the tag of the inbound and
  the credentials of the user match its protocol (nothing otherwise).
\<close>

theorem upsertUser_amended:
  "k < length (inbounds c) \<Longrightarrow>
     length (inbounds (Config_upsertUser E u c)) = length (inbounds c) \<and>
     (if exclude (inbounds c ! k)
      then inbounds (Config_upsertUser E u c) ! k = inbounds c ! k
      else accounts (inbounds (Config_upsertUser E u c) ! k) =
             filter (\<lambda>a. strField a ''name'' \<noteq> GetEmail u) (accounts (inbounds c ! k)) @
             (if tag (inbounds c ! k) \<in> set (GetInbounds u)
              then (case buildAccount E (inbounds c ! k) u of Some a \<Rightarrow> [a] | None \<Rightarrow> [])
              else []))"
  by (cases u) (simp_all add: Config_upsertUser_def upsert_raw accounts_set shouldAttachUser_def GetInbounds_def)

text \<open>
  Claim C6, amended. For every user and every configuration, \<^verbatim>\<open>upsertUser\<close> applied twice
  gives the configuration that one application gives, and after it an inbound that is not
  excluded holds at most one account whose name is the email of the user.
\<close>

theorem upsertUser_idempotent:
  "Config_upsertUser E u (Config_upsertUser E u c) = Config_upsertUser E u c \<and>
   (\<forall>i \<in> set (inbounds (Config_upsertUser E u c)).
      \<not> exclude i \<longrightarrow>
      length (filter (\<lambda>a. strField a ''name'' = GetEmail u) (accounts i)) \<le> 1)"
proof
  show "Config_upsertUser E u (Config_upsertUser E u c) = Config_upsertUser E u c"
    by (simp add: Config_upsertUser_def upsert_idem)
  show "\<forall>i \<in> set (inbounds (Config_upsertUser E u c)).
      \<not> exclude i \<longrightarrow>
      length (filter (\<lambda>a. strField a ''name'' = GetEmail u) (accounts i)) \<le> 1"
    using upsert_count[of _ u E] by (auto simp: Config_upsertUser_def upsert_fields)
qed

lemma staleConfig_inbounds:
  "inbounds staleConfig =
     [\<lparr>tag = ''in1'', protocol = ''vmess'',
       raw = [(''tag'', GStr ''in1''), (''type'', GStr ''vmess''),
              (''users'', GArr [GObj [(''name'', GStr ''a@x''), (''uuid'', GStr ''OLD1'')],
                                GObj [(''name'', GStr ''a@x''), (''uuid'', GStr ''OLD2'')]])],
       exclude = True\<rparr>]"
  by (simp add: staleConfig_def newInbound_def exampleEnv_def strField_def
      sanitizeInboundMap_def Let_def)

text \<open>
  Claim C2 as stated fails: \<^verbatim>\<open>Inbound.upsertUser\<close> returns at once on an excluded inbound, so
  the accounts of the identity \<^verbatim>\<open>a@x\<close> that an excluded inbound holds are still there after
  the upsert of \<^verbatim>\<open>a@x\<close>.
\<close>

theorem upsertUser_excluded_counterexample:
  "exclude (inbounds staleConfig ! 0) \<and>
   GetEmail (Some userA) = ''a@x'' \<and>
   accounts (inbounds (Config_upsertUser exampleEnv (Some userA) staleConfig) ! 0) =
     [[(''name'', GStr ''a@x''), (''uuid'', GStr ''OLD1'')],
      [(''name'', GStr ''a@x''), (''uuid'', GStr ''OLD2'')]]"
  by (simp add: staleConfig_inbounds Config_upsertUser_def Inbound_upsertUser_def
      accounts_def ensureUsersLocked_def GetEmail_def userA_def Let_def)

text \<open>
  Claim C6 as stated fails in its last part: after the second upsert of \<^verbatim>\<open>a@x\<close> the excluded
  inbound holds two accounts of the identity \<^verbatim>\<open>a@x\<close>.
\<close>

theorem upsertUser_twice_counterexample:
  "accounts (inbounds (Config_upsertUser exampleEnv (Some userA)
               (Config_upsertUser exampleEnv (Some userA) staleConfig)) ! 0) =
     [[(''name'', GStr ''a@x''), (''uuid'', GStr ''OLD1'')],
      [(''name'', GStr ''a@x''), (''uuid'', GStr ''OLD2'')]] \<and>
   strField [(''name'', GStr ''a@x''), (''uuid'', GStr ''OLD1'')] ''name'' = GetEmail (Some userA) \<and>
   strField [(''name'', GStr ''a@x''), (''uuid'', GStr ''OLD2'')] ''name'' = GetEmail (Some userA)"
  by (simp add: staleConfig_inbounds Config_upsertUser_def Inbound_upsertUser_def
      accounts_def ensureUsersLocked_def GetEmail_def userA_def strField_def Let_def)

text \<open>An upsert of \<^verbatim>\<open>a@x\<close> with a new identifier replaces the account of the first upsert.\<close>

theorem upsertUser_amended_witness:
  "accounts (inbounds (Config_upsertUser exampleEnv (Some userB)
      (Config_upsertUser exampleEnv (Some userA) (exampleConfig []))) ! 0) =
     [[(''name'', GStr ''a@x''), (''uuid'', GStr ''UUID2'')]]"
proof -
  have one: "inbounds (Config_upsertUser exampleEnv (Some userA) (exampleConfig [])) =
     [\<lparr>tag = ''in1'', protocol = ''vmess'',
       raw = [(''tag'', GStr ''in1''), (''type'', GStr ''vmess''),
              (''users'', GMaps [[(''name'', GStr ''a@x''), (''uuid'', GStr ''UUID1'')]])],
       exclude = False\<rparr>]"
    by (simp add: Config_upsertUser_def exampleConfig_inbounds upsert_raw accounts_def
        ensureUsersLocked_def example_defs Let_def)
  have k: "0 < length (inbounds (Config_upsertUser exampleEnv (Some userA) (exampleConfig [])))"
    by (simp add: one)
  from upsertUser_amended[OF k, where E=exampleEnv and u="Some userB"]
  show ?thesis
    by (simp add: one accounts_def ensureUsersLocked_def strField_def GetEmail_def GetInbounds_def
        userB_def buildAccount_def GetProxies_def GetVmess_def Let_def)
qed

text \<open>Twice as once on the example, which then holds one account of \<^verbatim>\<open>a@x\<close>.\<close>

theorem upsertUser_idempotent_witness:
  "Config_upsertUser exampleEnv (Some userA) (Config_upsertUser exampleEnv (Some userA) (exampleConfig [])) =
     Config_upsertUser exampleEnv (Some userA) (exampleConfig []) \<and>
   length (filter (\<lambda>a. strField a ''name'' = ''a@x'')
     (accounts (inbounds (Config_upsertUser exampleEnv (Some userA) (exampleConfig [])) ! 0))) = 1"
proof -
  have one: "inbounds (Config_upsertUser exampleEnv (Some userA) (exampleConfig [])) =
     [\<lparr>tag = ''in1'', protocol = ''vmess'',
       raw = [(''tag'', GStr ''in1''), (''type'', GStr ''vmess''),
              (''users'', GMaps [[(''name'', GStr ''a@x''), (''uuid'', GStr ''UUID1'')]])],
       exclude = False\<rparr>]"
    by (simp add: Config_upsertUser_def exampleConfig_inbounds upsert_raw accounts_def
        ensureUsersLocked_def example_defs Let_def)
  from upsertUser_idempotent[of exampleEnv "Some userA" "exampleConfig []"]
  show ?thesis
    by (simp add: one accounts_def ensureUsersLocked_def strField_def)
qed

section \<open>Construction fails on the documents without inbounds\<close>

text \<open>
  Claim C7. For every document, \<^verbatim>\<open>NewSingBoxConfig\<close> returns an error exactly when the
  document is empty or white space, is not JSON, or has no top-level \<^verbatim>\<open>inbounds\<close> array;
  the error is one of the three configuration errors, no configuration is returned with
  it, and \<^verbatim>\<open>NewSingBox\<close> without a configuration returns an error before it creates a
  supervisor, the world unchanged.
\<close>

theorem newSingBoxConfig_fails_iff:
  "(isl (NewSingBoxConfig E doc excl) \<longleftrightarrow>
      (TrimSpace doc = [] \<or> jsonDecode E doc = None \<or> \<not> hasInboundsArray (jsonDecode E doc))) \<and>
   (isl (NewSingBoxConfig E doc excl) \<longrightarrow>
      projl (NewSingBoxConfig E doc excl) \<in> {ErrEmptyConfig, ErrUnmarshal, ErrNoInbounds} \<and>
      NewSingBox E os None users nodeCfg w \<in>
        {(Inl ErrConfigRequired, w), (Inl ErrConfigNotInitialized, w)})"
  by (auto simp: NewSingBoxConfig_def Unmarshal_def hasInboundsArray_def NewSingBox_def
      split: option.splits gval.splits sum.splits)

lemma trim_blank: "TrimSpace [CHR 0x20, CHR 0x0A, CHR 0xC2, CHR 0xA0] = []"
  by (simp add: TrimSpace_def TrimLeftSpace_def TrimRightSpace_def spaceRunes_def)

lemma trim_doc: "TrimSpace emptyInboundsDoc = emptyInboundsDoc"
  by (simp add: TrimSpace_def TrimLeftSpace_def TrimRightSpace_def spaceRunes_def emptyInboundsDoc_def)

text \<open>White space and \<^verbatim>\<open>{}\<close> are rejected, \<^verbatim>\<open>{"inbounds":[]}\<close> is accepted.\<close>

theorem newSingBoxConfig_fails_iff_witness:
  "isl (NewSingBoxConfig exampleEnv [CHR 0x20, CHR 0x0A, CHR 0xC2, CHR 0xA0] []) \<and>
   isl (NewSingBoxConfig exampleEnv ''{}'' []) \<and>
   \<not> isl (NewSingBoxConfig exampleEnv emptyInboundsDoc [])"
proof -
  have d: "jsonDecode exampleEnv emptyInboundsDoc = Some (GObj [(''inbounds'', GArr [])])"
    by (simp add: exampleEnv_def emptyInboundsDoc_def)
  have e: "jsonDecode exampleEnv ''{}'' = Some (GObj [])"
    by (simp add: exampleEnv_def emptyInboundsDoc_def)
  have ne: "emptyInboundsDoc \<noteq> []"
    by (simp add: emptyInboundsDoc_def)
  from newSingBoxConfig_fails_iff[of exampleEnv "[CHR 0x20, CHR 0x0A, CHR 0xC2, CHR 0xA0]" "[]"]
  have a: "isl (NewSingBoxConfig exampleEnv [CHR 0x20, CHR 0x0A, CHR 0xC2, CHR 0xA0] [])"
    by (simp add: trim_blank)
  from newSingBoxConfig_fails_iff[of exampleEnv "''{}''" "[]"] e
  have b: "isl (NewSingBoxConfig exampleEnv ''{}'' [])"
    by (simp add: hasInboundsArray_def)
  from newSingBoxConfig_fails_iff[of exampleEnv emptyInboundsDoc "[]"] d ne
  have c: "\<not> isl (NewSingBoxConfig exampleEnv emptyInboundsDoc [])"
    by (simp add: trim_doc hasInboundsArray_def)
  from a b c show ?thesis by simp
qed

section \<open>Start on a running supervisor\<close>

text \<open>
  Claim C5 as stated fails: \<^verbatim>\<open>Start\<close> writes the configuration file before it looks at the
  process handle. On a supervisor with the live process 4242 the call returns the error
  "already running", yet the file that held \<^verbatim>\<open>old\<close> holds the new configuration; and when the
  write fails the error returned is that of the write.
\<close>

theorem start_running_counterexample:
  "Core_PID runningCore = 4242 \<and>
   fst (Core_Start exampleEnv okOS (exampleConfig []) runningCore oldWorld) = Some ErrAlreadyRunning \<and>
   files oldWorld ''/var/lib/pg-node/generated/sing-box.json'' = Some ''old'' \<and>
   files (snd (snd (Core_Start exampleEnv okOS (exampleConfig []) runningCore oldWorld)))
     ''/var/lib/pg-node/generated/sing-box.json'' = Some ''{}'' \<and>
   fst (Core_Start exampleEnv diskFullOS (exampleConfig []) runningCore oldWorld) =
     Some (ErrOS ''no space left on device'')"
  by (simp add: Core_PID_def Core_Start_def Start_write_def Start_locked_def writeConfigFile_def
      ToBytes_def exampleEnv_def runningCore_def oldWorld_def okOS_def diskFullOS_def)

text \<open>
  Claim C5, amended. For every supervisor with a live subprocess handle, \<^verbatim>\<open>Start\<close> fails; the
  error is "already running" whenever the serialization and the write of the configuration
  file succeed, and otherwise it is the error of the serialization or of the file system;
  the supervisor is unchanged (handle, start time, cancel function, flag and version), no
  process is started, no scope cancelled and nothing killed; the world after the call is
  the world that the write of the file has left.
\<close>

theorem start_running_amended:
  "process c = Some cmd \<Longrightarrow> Process cmd \<noteq> None \<Longrightarrow>
     fst (Core_Start E os cf c w) \<noteq> None \<and>
     (fst (Start_write E os cf c w) = None \<longrightarrow> fst (Core_Start E os cf c w) = Some ErrAlreadyRunning) \<and>
     (\<forall>e. fst (Start_write E os cf c w) = Some e \<longrightarrow> fst (Core_Start E os cf c w) = Some e) \<and>
     (\<forall>e. ToBytes E cf = Inl e \<longrightarrow> fst (Core_Start E os cf c w) = Some e) \<and>
     (\<forall>b e. ToBytes E cf = Inr b \<and> mkdirErr os = Some e \<longrightarrow> fst (Core_Start E os cf c w) = Some e) \<and>
     (\<forall>b e. ToBytes E cf = Inr b \<and> mkdirErr os = None \<and> writeErr os = Some e \<longrightarrow>
        fst (Core_Start E os cf c w) = Some e) \<and>
     fst (snd (Core_Start E os cf c w)) = c \<and>
     snd (snd (Core_Start E os cf c w)) = snd (Start_write E os cf c w) \<and>
     spawned (snd (snd (Core_Start E os cf c w))) = spawned w \<and>
     cancelled (snd (snd (Core_Start E os cf c w))) = cancelled w \<and>
     killed (snd (snd (Core_Start E os cf c w))) = killed w"
  by (auto simp: Core_Start_def Start_locked_def Start_write_def writeConfigFile_def Let_def
      split: prod.splits option.splits sum.splits)

text \<open>On the running supervisor of the examples.\<close>

theorem start_running_amended_witness:
  "fst (Core_Start exampleEnv okOS (exampleConfig []) runningCore oldWorld) = Some ErrAlreadyRunning \<and>
   fst (snd (Core_Start exampleEnv okOS (exampleConfig []) runningCore oldWorld)) = runningCore \<and>
   spawned (snd (snd (Core_Start exampleEnv okOS (exampleConfig []) runningCore oldWorld))) = [(4242, [])] \<and>
   fst (Core_Start exampleEnv diskFullOS (exampleConfig []) runningCore oldWorld) =
     Some (ErrOS ''no space left on device'')"
proof -
  have p: "process runningCore = Some \<lparr>Process = Some 4242, ProcessState = False\<rparr>"
    by (simp add: runningCore_def)
  have q: "Process \<lparr>Process = Some 4242, ProcessState = False\<rparr> \<noteq> None"
    by simp
  have r: "fst (Start_write exampleEnv okOS (exampleConfig []) runningCore oldWorld) = None"
    by (simp add: Start_write_def writeConfigFile_def ToBytes_def exampleEnv_def okOS_def)
  have r2: "fst (Start_write exampleEnv diskFullOS (exampleConfig []) runningCore oldWorld) =
              Some (ErrOS ''no space left on device'')"
    by (simp add: Start_write_def writeConfigFile_def ToBytes_def exampleEnv_def okOS_def
        diskFullOS_def)
  have s: "spawned oldWorld = [(4242, [])]"
    by (simp add: oldWorld_def)
  from start_running_amended[OF p q, of exampleEnv okOS "exampleConfig []" oldWorld]
  have a: "fst (Start_write exampleEnv okOS (exampleConfig []) runningCore oldWorld) = None \<longrightarrow>
             fst (Core_Start exampleEnv okOS (exampleConfig []) runningCore oldWorld) = Some ErrAlreadyRunning"
    and b: "fst (snd (Core_Start exampleEnv okOS (exampleConfig []) runningCore oldWorld)) = runningCore"
    and c: "spawned (snd (snd (Core_Start exampleEnv okOS (exampleConfig []) runningCore oldWorld))) =
             spawned oldWorld"
    by blast+
  from start_running_amended[OF p q, of exampleEnv diskFullOS "exampleConfig []" oldWorld]
  have "\<forall>e. fst (Start_write exampleEnv diskFullOS (exampleConfig []) runningCore oldWorld) = Some e \<longrightarrow>
             fst (Core_Start exampleEnv diskFullOS (exampleConfig []) runningCore oldWorld) = Some e"
    by blast
  with r2 have d: "fst (Core_Start exampleEnv diskFullOS (exampleConfig []) runningCore oldWorld) =
                     Some (ErrOS ''no space left on device'')"
    by blast
  from a r b c s d show ?thesis by simp
qed

section \<open>After Shutdown\<close>

text \<open>
  Claim C9. After \<^verbatim>\<open>Shutdown\<close>, \<^verbatim>\<open>Version\<close> gives the empty string and \<^verbatim>\<open>Started\<close> gives
  false, and \<^verbatim>\<open>SyncUser\<close> with a user and \<^verbatim>\<open>SyncUsers\<close> panic: they call \<^verbatim>\<open>Restart\<close> on
  the nil supervisor. (\<^verbatim>\<open>SyncUser\<close> with a nil user returns its error before it reaches
  \<^verbatim>\<open>Restart\<close>.)
\<close>

theorem shutdown_then_sync:
  "SingBox_Version (fst (SingBox_Shutdown osStop s w)) = [] \<and>
   \<not> SingBox_Started (fst (SingBox_Shutdown osStop s w)) \<and>
   SingBox_SyncUser E os1 os2 (Some u) (fst (SingBox_Shutdown osStop s w)) w1 = Panic \<and>
   SingBox_SyncUsers E os1 os2 users (fst (SingBox_Shutdown osStop s w)) w1 = Panic"
  by (simp add: SingBox_Version_def SingBox_Started_def SingBox_Shutdown_def SingBox_SyncUser_def
      SingBox_SyncUsers_def Restart_ptr_def Let_def split: option.splits prod.splits)

text \<open>The backend of the examples answers its version before \<^verbatim>\<open>Shutdown\<close> and panics after.\<close>

theorem shutdown_then_sync_witness:
  "SingBox_Version exampleSingBox = ''1.8.0'' \<and>
   SingBox_Started exampleSingBox \<and>
   SingBox_Version (fst (SingBox_Shutdown \<lparr>exitedInTime = True\<rparr> exampleSingBox oldWorld)) = [] \<and>
   \<not> SingBox_Started (fst (SingBox_Shutdown \<lparr>exitedInTime = True\<rparr> exampleSingBox oldWorld)) \<and>
   SingBox_SyncUser exampleEnv \<lparr>exitedInTime = True\<rparr> okOS (Some userA)
     (fst (SingBox_Shutdown \<lparr>exitedInTime = True\<rparr> exampleSingBox oldWorld)) oldWorld = Panic"
  using shutdown_then_sync[of "\<lparr>exitedInTime = True\<rparr>" exampleSingBox oldWorld exampleEnv
      "\<lparr>exitedInTime = True\<rparr>" okOS userA oldWorld "[]"]
  by (simp add: SingBox_Version_def SingBox_Started_def exampleSingBox_def runningCore_def
      Core_Version_def Core_Started_def)

section \<open>The sampler is not rate-limited\<close>

text \<open>The loop never waits on a timer: its trace holds samplings only.\<close>

lemma sampler_trace: "set (fst (recordSystemStats its st)) \<subseteq> {Sample}"
proof (induction its arbitrary: st)
  case Nil
  then show ?case by simp
next
  case (Cons it its)
  define st1 where "st1 = (case snd it of Inl err \<Rightarrow> st | Inr stats \<Rightarrow> Some stats)"
  from Cons[of st1] show ?case
    by (cases "recordSystemStats its st1") (auto simp: st1_def)
qed

text \<open>
  Claim C3 does not hold of the source: with the context alive for two iterations, the
  loop samples twice in a row and no wait on a timer separates the two samplings.
\<close>

theorem sampler_not_rate_limited:
  "fst (recordSystemStats [(False, Inr (1::nat)), (False, Inr 2), (True, Inr 3)] None) = [Sample, Sample] \<and>
   snd (recordSystemStats [(False, Inr (1::nat)), (False, Inr 2), (True, Inr 3)] None) = Some 2 \<and>
   \<not> rateLimited [Sample, Sample]"
  by simp

section \<open>The restart flag\<close>

lemma Stop_restarting [simp]: "restarting (fst (Core_Stop os c w)) = restarting c"
  by (simp add: Core_Stop_def Let_def split: option.splits prod.splits)

lemma Start_locked_restarting [simp]:
  "restarting (fst (snd (Start_locked E os c w))) = restarting c"
  by (simp add: Start_locked_def split: option.splits)

lemma Start_restarting [simp]:
  "restarting (fst (snd (Core_Start E os cf c w))) = restarting c"
  by (simp add: Core_Start_def split: option.splits prod.splits)

lemma Restart_clears:
  "\<not> restarting c \<Longrightarrow> \<not> restarting (fst (snd (Core_Restart E osStop osStart cf c w)))"
  by (simp add: Core_Restart_def Restart_enter_def Restart_exit_def Let_def split: prod.splits)

lemma Restart_rejected:
  "restarting c \<Longrightarrow> Core_Restart E osStop osStart cf c w = (Some ErrAlreadyRestarting, c, w)"
  by (simp add: Core_Restart_def Restart_enter_def)

lemma run_thread_Restart:
  "run_thread 5 E osStop osStart (RestartEntry cf) c w =
     (case Core_Restart E osStop osStart cf c w of (err, c1, w1) \<Rightarrow> (Returned err, c1, w1))"
  by (simp add: numeral_eq_Suc Core_Restart_def Core_Start_def Restart_enter_def Let_def
      split: prod.splits option.splits)

lemma filter_update_count:
  "i < length ts \<Longrightarrow>
     length (filter P (ts[i := p])) + (if P (ts ! i) then 1 else 0) =
     length (filter P ts) + (if P p then 1 else 0)"
proof (induction ts arbitrary: i)
  case Nil
  then show ?case by simp
next
  case (Cons t ts)
  then show ?case by (cases i) auto
qed

lemma Stop_restarting_eq: "Core_Stop os c w = (c1, w1) \<Longrightarrow> restarting c1 = restarting c"
  using Stop_restarting[of os c w] by simp

lemma Start_locked_restarting_eq:
  "Start_locked E os c w = (err, c1, w1) \<Longrightarrow> restarting c1 = restarting c"
  using Start_locked_restarting[of E os c w] by simp

lemma thread_step_cases:
  assumes "thread_step E osStop osStart p c w = Some (p1, c1, w1)"
  shows "(\<not> inRestart p \<and> \<not> inRestart p1 \<and> restarting c1 = restarting c) \<or>
         (\<not> inRestart p \<and> inRestart p1 \<and> \<not> restarting c \<and> restarting c1) \<or>
         (inRestart p \<and> inRestart p1 \<and> restarting c1 = restarting c) \<or>
         (inRestart p \<and> \<not> inRestart p1 \<and> \<not> restarting c1)"
  using assms
  by (cases p)
     (auto simp: Restart_enter_def Restart_exit_def Let_def
           split: if_splits prod.splits option.splits
           dest: Stop_restarting_eq Start_locked_restarting_eq)

lemma inRestart_count_pos: "i < length ts \<Longrightarrow> inRestart (ts ! i) \<Longrightarrow> 0 < length (filter inRestart ts)"
  by (metis filter_empty_conv length_greater_0_conv nth_mem)

lemma step_flagInv:
  assumes "step E s s1" and "flagInv s"
  shows "flagInv s1"
  using assms
proof (cases rule: step.cases)
  case (arrive p ts c w)
  then have "\<not> inRestart p" by (cases p) auto
  with arrive assms(2) show ?thesis by (simp add: flagInv_def)
next
  case (advance i ts osStop osStart c w p c1 w1)
  note cnt = filter_update_count[OF advance(3), of inRestart p]
  from assms(2) advance(1) have inv: "length (filter inRestart ts) = (if restarting c then 1 else 0)"
    by (simp add: flagInv_def)
  from thread_step_cases[OF advance(4)] inRestart_count_pos[OF advance(3)] cnt inv
  have "length (filter inRestart (ts[i := p])) = (if restarting c1 then 1 else 0)"
    by (auto split: if_splits)
  with advance(2) show ?thesis by (simp add: flagInv_def)
qed

lemma reachable_flagInv: "reachable E s \<Longrightarrow> flagInv s"
proof (induction rule: reachable.induct)
  case (start c w)
  then show ?case by (simp add: flagInv_def)
next
  case (after s s1)
  then show ?case by (blast intro: step_flagInv)
qed

lemma count_pos_iff: "(0 < length (filter P xs)) = (\<exists>x \<in> set xs. P x)"
  by (simp add: filter_empty_conv)

text \<open>
  Claim C4. In every state that concurrent calls of \<^verbatim>\<open>Restart\<close>, \<^verbatim>\<open>Start\<close> and \<^verbatim>\<open>Stop\<close> can
  reach, at most one call is inside \<^verbatim>\<open>Restart\<close> (between the setting of the flag and its
  clearing, where \<^verbatim>\<open>Stop\<close> and \<^verbatim>\<open>Start\<close> run); and while one is, the flag is up and any
  other call of \<^verbatim>\<open>Restart\<close> returns the error "already restarting" in its first step, the
  supervisor and the world unchanged.
\<close>

theorem restart_exclusive:
  "reachable E (ts, c, w) \<Longrightarrow>
     length (filter inRestart ts) \<le> 1 \<and>
     ((\<exists>p \<in> set ts. inRestart p) \<longrightarrow>
        restarting c \<and>
        thread_step E osStop osStart (RestartEntry cf) c w =
          Some (Returned (Some ErrAlreadyRestarting), c, w) \<and>
        Core_Restart E osStop osStart cf c w = (Some ErrAlreadyRestarting, c, w))"
proof -
  assume "reachable E (ts, c, w)"
  then have inv: "length (filter inRestart ts) = (if restarting c then 1 else 0)"
    using reachable_flagInv by (fastforce simp: flagInv_def)
  have "restarting c" if "\<exists>p \<in> set ts. inRestart p"
    using that inv count_pos_iff[of inRestart ts] by (auto split: if_splits)
  with inv show ?thesis
    by (auto simp: Restart_rejected Restart_enter_def)
qed

text \<open>
  Claim C10. In every reachable state the flag is up exactly when a call is inside
  \<^verbatim>\<open>Restart\<close>; when none is (every earlier call has returned), the next \<^verbatim>\<open>Restart\<close> is
  admitted, and it ends with the flag down whatever \<^verbatim>\<open>Stop\<close> and \<^verbatim>\<open>Start\<close> did, a failed
  \<^verbatim>\<open>Start\<close> included.
\<close>

theorem restart_flag_invariant:
  "reachable E (ts, c, w) \<Longrightarrow>
     (restarting c \<longleftrightarrow> (\<exists>p \<in> set ts. inRestart p)) \<and>
     ((\<forall>p \<in> set ts. \<not> inRestart p) \<longrightarrow>
        Restart_enter c = Inr (c\<lparr>restarting := True\<rparr>) \<and>
        \<not> restarting (fst (snd (Core_Restart E osStop osStart cf c w))))"
proof -
  assume "reachable E (ts, c, w)"
  then have inv: "length (filter inRestart ts) = (if restarting c then 1 else 0)"
    using reachable_flagInv by (fastforce simp: flagInv_def)
  have iff: "restarting c \<longleftrightarrow> (\<exists>p \<in> set ts. inRestart p)"
    using inv count_pos_iff[of inRestart ts] by (auto split: if_splits)
  show ?thesis
    using iff by (auto simp: Restart_enter_def Restart_clears)
qed

lemma reachable_run_thread:
  "reachable E (ts, c, w) \<Longrightarrow> i < length ts \<Longrightarrow>
     run_thread n E osStop osStart (ts ! i) c w = (p, c1, w1) \<Longrightarrow>
     reachable E (ts[i := p], c1, w1)"
proof (induction n arbitrary: ts c w)
  case 0
  then show ?case by auto
next
  case (Suc n)
  show ?case
  proof (cases "thread_step E osStop osStart (ts ! i) c w")
    case None
    with Suc.prems show ?thesis by auto
  next
    case (Some r)
    obtain p2 c2 w2 where r: "r = (p2, c2, w2)" by (cases r)
    from Suc.prems(1) have "reachable E (ts[i := p2], c2, w2)"
      using step.advance[OF Suc.prems(2), of E osStop osStart c w p2 c2 w2] Some r
      by (auto intro: reachable.after)
    moreover from Suc.prems(3) Some r
    have "run_thread n E osStop osStart (ts[i := p2] ! i) c2 w2 = (p, c1, w1)"
      using Suc.prems(2) by simp
    ultimately have "reachable E (ts[i := p2, i := p], c1, w1)"
      using Suc.IH[of "ts[i := p2]" c2 w2] Suc.prems(2) by simp
    then show ?thesis by simp
  qed
qed

lemma reachable_arrive:
  "reachable E (ts, c, w) \<Longrightarrow> isEntry p \<Longrightarrow> reachable E (ts @ [p], c, w)"
  by (blast intro: reachable.after step.arrive)

lemma idle_one_step:
  "run_thread 1 exampleEnv \<lparr>exitedInTime = True\<rparr> okOS (RestartEntry (exampleConfig [])) idleCore oldWorld =
     (RestartStop (exampleConfig []), idleCore\<lparr>restarting := True\<rparr>, oldWorld)"
  by (simp add: Restart_enter_def idleCore_def runningCore_def)

text \<open>While a first \<^verbatim>\<open>Restart\<close> is before its \<^verbatim>\<open>Stop\<close>, a second one is turned away.\<close>

theorem restart_exclusive_witness:
  "reachable exampleEnv
     ([RestartStop (exampleConfig []), RestartEntry (exampleConfig [])],
      idleCore\<lparr>restarting := True\<rparr>, oldWorld) \<and>
   thread_step exampleEnv \<lparr>exitedInTime = True\<rparr> okOS (RestartEntry (exampleConfig []))
     (idleCore\<lparr>restarting := True\<rparr>) oldWorld =
     Some (Returned (Some ErrAlreadyRestarting), idleCore\<lparr>restarting := True\<rparr>, oldWorld)"
proof -
  have "reachable exampleEnv ([], idleCore, oldWorld)"
    by (rule reachable.start) (simp add: idleCore_def runningCore_def)
  then have "reachable exampleEnv ([] @ [RestartEntry (exampleConfig [])], idleCore, oldWorld)"
    by (rule reachable_arrive) simp
  then have r1: "reachable exampleEnv ([RestartEntry (exampleConfig [])], idleCore, oldWorld)"
    by simp
  have "reachable exampleEnv
     ([RestartEntry (exampleConfig [])][0 := RestartStop (exampleConfig [])],
      idleCore\<lparr>restarting := True\<rparr>, oldWorld)"
  proof (rule reachable_run_thread[where n=1 and osStop="\<lparr>exitedInTime = True\<rparr>" and osStart=okOS])
    show "reachable exampleEnv ([RestartEntry (exampleConfig [])], idleCore, oldWorld)"
      by (rule r1)
    show "0 < length [RestartEntry (exampleConfig [])]"
      by simp
    show "run_thread 1 exampleEnv \<lparr>exitedInTime = True\<rparr> okOS
            ([RestartEntry (exampleConfig [])] ! 0) idleCore oldWorld =
          (RestartStop (exampleConfig []), idleCore\<lparr>restarting := True\<rparr>, oldWorld)"
      by (simp only: nth_Cons_0 idle_one_step)
  qed
  then have "reachable exampleEnv
     ([RestartStop (exampleConfig [])] @ [RestartEntry (exampleConfig [])],
      idleCore\<lparr>restarting := True\<rparr>, oldWorld)"
    by (intro reachable_arrive) simp_all
  then have r: "reachable exampleEnv
     ([RestartStop (exampleConfig []), RestartEntry (exampleConfig [])],
      idleCore\<lparr>restarting := True\<rparr>, oldWorld)"
    by simp
  from restart_exclusive[OF r, of "\<lparr>exitedInTime = True\<rparr>" okOS "exampleConfig []"] r
  show ?thesis by simp
qed

text \<open>A restart whose start fails returns with the flag down, and the next one is admitted.\<close>

theorem restart_flag_invariant_witness:
  "reachable exampleEnv
     ([Returned (Some (ErrOS ''exec format error''))], idleCore,
      snd (snd (run_thread 5 exampleEnv \<lparr>exitedInTime = True\<rparr> failingOS
                  (RestartEntry (exampleConfig [])) idleCore oldWorld))) \<and>
   \<not> restarting idleCore \<and>
   Restart_enter idleCore = Inr (idleCore\<lparr>restarting := True\<rparr>)"
proof -
  let ?r = "run_thread 5 exampleEnv \<lparr>exitedInTime = True\<rparr> failingOS
              (RestartEntry (exampleConfig [])) idleCore oldWorld"
  have "reachable exampleEnv ([], idleCore, oldWorld)"
    by (rule reachable.start) (simp add: idleCore_def runningCore_def)
  then have "reachable exampleEnv ([] @ [RestartEntry (exampleConfig [])], idleCore, oldWorld)"
    by (rule reachable_arrive) simp
  then have r1: "reachable exampleEnv ([RestartEntry (exampleConfig [])], idleCore, oldWorld)"
    by simp
  have pc: "fst ?r = Returned (Some (ErrOS ''exec format error''))"
    and co: "fst (snd ?r) = idleCore"
    by (simp_all add: numeral_eq_Suc Restart_enter_def Restart_exit_def Core_Stop_def
        Start_write_def Start_locked_def writeConfigFile_def ToBytes_def exampleEnv_def
        failingOS_def okOS_def idleCore_def runningCore_def)
  have "reachable exampleEnv
     ([RestartEntry (exampleConfig [])][0 := fst ?r], fst (snd ?r), snd (snd ?r))"
  proof (rule reachable_run_thread[where n=5 and osStop="\<lparr>exitedInTime = True\<rparr>" and osStart=failingOS])
    show "reachable exampleEnv ([RestartEntry (exampleConfig [])], idleCore, oldWorld)"
      by (rule r1)
    show "0 < length [RestartEntry (exampleConfig [])]"
      by simp
    show "run_thread 5 exampleEnv \<lparr>exitedInTime = True\<rparr> failingOS
            ([RestartEntry (exampleConfig [])] ! 0) idleCore oldWorld =
          (fst ?r, fst (snd ?r), snd (snd ?r))"
      by simp
  qed
  then have r: "reachable exampleEnv
     ([Returned (Some (ErrOS ''exec format error''))], idleCore, snd (snd ?r))"
    by (simp add: pc co)
  from restart_flag_invariant[OF r, of "\<lparr>exitedInTime = True\<rparr>" failingOS "exampleConfig []"] r
  show ?thesis by simp
qed

section \<open>Version detection finds the first dotted triple\<close>

lemma dot_not_digit [simp]: "\<not> isDigit CHR ''.''"
  by (simp add: isDigit_def)

lemma takeWhile_digits:
  "\<forall>c \<in> set a. isDigit c \<Longrightarrow> takeWhile isDigit (a @ CHR ''.'' # r) = a"
  by (induction a) auto

lemma dropWhile_digits:
  "\<forall>c \<in> set a. isDigit c \<Longrightarrow> dropWhile isDigit (a @ CHR ''.'' # r) = CHR ''.'' # r"
  by (induction a) auto

lemma takeWhile_all: "\<forall>c \<in> set (takeWhile P xs). P c"
  by (blast dest: set_takeWhileD)

lemma matchTriple_SomeD:
  "matchTriple s = Some m \<Longrightarrow>
     \<exists>r1 r2. dropWhile isDigit s = CHR ''.'' # r1 \<and> dropWhile isDigit r1 = CHR ''.'' # r2 \<and>
       takeWhile isDigit s \<noteq> [] \<and> takeWhile isDigit r1 \<noteq> [] \<and> takeWhile isDigit r2 \<noteq> [] \<and>
       m = takeWhile isDigit s @ ''.'' @ takeWhile isDigit r1 @ ''.'' @ takeWhile isDigit r2"
  unfolding matchTriple_def Let_def
  by (simp split: if_splits list.splits)

lemma matchTriple_sound:
  assumes "matchTriple s = Some m"
  shows "dottedTriple m \<and> (\<exists>post. s = m @ post)"
proof -
  from matchTriple_SomeD[OF assms] obtain r1 r2 where
    r1: "dropWhile isDigit s = CHR ''.'' # r1" and r2: "dropWhile isDigit r1 = CHR ''.'' # r2"
    and ne: "takeWhile isDigit s \<noteq> []" "takeWhile isDigit r1 \<noteq> []" "takeWhile isDigit r2 \<noteq> []"
    and m: "m = takeWhile isDigit s @ ''.'' @ takeWhile isDigit r1 @ ''.'' @ takeWhile isDigit r2"
    by blast
  have "m @ dropWhile isDigit r2 =
          takeWhile isDigit s @ CHR ''.'' # takeWhile isDigit r1 @ CHR ''.'' # r2"
    by (simp add: m)
  also have "\<dots> = takeWhile isDigit s @ CHR ''.'' # takeWhile isDigit r1 @ dropWhile isDigit r1"
    by (simp only: r2)
  also have "\<dots> = takeWhile isDigit s @ CHR ''.'' # r1"
    by simp
  also have "\<dots> = takeWhile isDigit s @ dropWhile isDigit s"
    by (simp only: r1)
  also have "\<dots> = s"
    by simp
  finally have s: "m @ dropWhile isDigit r2 = s" .
  have dg: "\<forall>c \<in> set (takeWhile isDigit s). isDigit c"
    "\<forall>c \<in> set (takeWhile isDigit r1). isDigit c"
    "\<forall>c \<in> set (takeWhile isDigit r2). isDigit c"
    by (rule takeWhile_all)+
  have dm: "dottedTriple m"
    unfolding dottedTriple_def
    using m ne dg by blast
  have "s = m @ dropWhile isDigit r2"
    by (rule s[symmetric])
  then have "\<exists>post. s = m @ post" ..
  with dm show ?thesis ..
qed

lemma matchTriple_complete:
  assumes "dottedTriple m1" and "s = m1 @ post1"
  shows "\<exists>m. matchTriple s = Some m \<and> length m1 \<le> length m"
proof -
  from assms(1) obtain a b d where m1: "m1 = a @ ''.'' @ b @ ''.'' @ d"
    and ne: "a \<noteq> []" "b \<noteq> []" "d \<noteq> []"
    and dg: "\<forall>c \<in> set a. isDigit c" "\<forall>c \<in> set b. isDigit c" "\<forall>c \<in> set d. isDigit c"
    by (auto simp: dottedTriple_def)
  have s: "s = a @ CHR ''.'' # (b @ CHR ''.'' # (d @ post1))"
    using assms(2) m1 by simp
  have ta: "takeWhile isDigit s = a" and da: "dropWhile isDigit s = CHR ''.'' # (b @ CHR ''.'' # (d @ post1))"
    unfolding s using dg(1) by (rule takeWhile_digits, rule dropWhile_digits)
  have tb: "takeWhile isDigit (b @ CHR ''.'' # (d @ post1)) = b"
    and db: "dropWhile isDigit (b @ CHR ''.'' # (d @ post1)) = CHR ''.'' # (d @ post1)"
    using dg(2) by (rule takeWhile_digits, rule dropWhile_digits)
  have td: "takeWhile isDigit (d @ post1) = d @ takeWhile isDigit post1"
    using dg(3) by (simp add: takeWhile_append2)
  have "matchTriple s = Some (a @ ''.'' @ b @ ''.'' @ d @ takeWhile isDigit post1)"
    using ne by (simp add: matchTriple_def ta da tb db td)
  then show ?thesis
    by (simp add: m1)
qed

lemma dottedTriple_nonempty: "dottedTriple m \<Longrightarrow> m \<noteq> []"
  by (auto simp: dottedTriple_def)

lemma FindString_none:
  "\<not> (\<exists>pre m post. s = pre @ m @ post \<and> dottedTriple m) \<Longrightarrow> FindString s = []"
proof (induction s)
  case Nil
  then show ?case by simp
next
  case (Cons c cs)
  have no0: "matchTriple (c # cs) = None"
  proof (rule ccontr)
    assume "matchTriple (c # cs) \<noteq> None"
    then obtain m where "matchTriple (c # cs) = Some m" by auto
    from matchTriple_sound[OF this] obtain post where "dottedTriple m" "c # cs = [] @ m @ post"
      by auto
    with Cons.prems show False by blast
  qed
  have "\<not> (\<exists>pre m post. cs = pre @ m @ post \<and> dottedTriple m)"
  proof
    assume "\<exists>pre m post. cs = pre @ m @ post \<and> dottedTriple m"
    then obtain pre m post where "cs = pre @ m @ post" "dottedTriple m" by blast
    then have "c # cs = (c # pre) @ m @ post \<and> dottedTriple m" by simp
    with Cons.prems show False by blast
  qed
  with Cons.IH no0 show ?case by simp
qed

lemma FindString_first:
  "\<exists>pre m post. s = pre @ m @ post \<and> dottedTriple m \<Longrightarrow> firstTriple s (FindString s)"
proof (induction s)
  case Nil
  then show ?case by (auto dest: dottedTriple_nonempty)
next
  case (Cons c cs)
  show ?case
  proof (cases "matchTriple (c # cs)")
    case (Some m)
    from matchTriple_sound[OF Some] obtain post where dm: "dottedTriple m" and s: "c # cs = m @ post"
      by auto
    have key: "length ([]::string) < length pre1 \<or> (length pre1 = length ([]::string) \<and> length m1 \<le> length m)"
      if o: "c # cs = pre1 @ m1 @ post1" and d1: "dottedTriple m1" for pre1 m1 post1
    proof (cases pre1)
      case Nil
      with o have "c # cs = m1 @ post1" by simp
      from matchTriple_complete[OF d1 this] Some have "length m1 \<le> length m" by simp
      with Nil show ?thesis by simp
    next
      case (Cons x xs)
      then show ?thesis by simp
    qed
    have fm: "FindString (c # cs) = m"
      using Some by simp
    show ?thesis
      unfolding firstTriple_def fm
    proof (rule exI[of _ "[]"], rule exI[of _ post], intro conjI allI impI)
      show "c # cs = [] @ m @ post"
        using s by simp
      show "dottedTriple m"
        by (rule dm)
      fix pre1 m1 post1
      assume "c # cs = pre1 @ m1 @ post1 \<and> dottedTriple m1"
      then show "length ([]::string) < length pre1 \<or>
                 (length pre1 = length ([]::string) \<and> length m1 \<le> length m)"
        using key[of pre1 m1 post1] by simp
    qed
  next
    case None
    have tail: "\<exists>pre2. pre1 = c # pre2 \<and> cs = pre2 @ m1 @ post1"
      if o: "c # cs = pre1 @ m1 @ post1" and d1: "dottedTriple m1" for pre1 m1 post1
    proof (cases pre1)
      case Nil
      with o have "c # cs = m1 @ post1" by simp
      from matchTriple_complete[OF d1 this] None show ?thesis by simp
    next
      case (Cons x xs)
      with o show ?thesis by simp
    qed
    from Cons.prems obtain pre0 m0 post0 where o0: "c # cs = pre0 @ m0 @ post0" and d0: "dottedTriple m0"
      by blast
    from tail[OF o0 d0] d0 have "\<exists>pre m post. cs = pre @ m @ post \<and> dottedTriple m"
      by blast
    from Cons.IH[OF this] obtain pre post where
      cs: "cs = pre @ FindString cs @ post" and df: "dottedTriple (FindString cs)"
      and least: "\<And>pre1 m1 post1. cs = pre1 @ m1 @ post1 \<Longrightarrow> dottedTriple m1 \<Longrightarrow>
         length pre < length pre1 \<or> (length pre1 = length pre \<and> length m1 \<le> length (FindString cs))"
      unfolding firstTriple_def by blast
    have fs: "FindString (c # cs) = FindString cs"
      using None by simp
    have key: "length (c # pre) < length pre1 \<or>
          (length pre1 = length (c # pre) \<and> length m1 \<le> length (FindString cs))"
      if o: "c # cs = pre1 @ m1 @ post1" and d1: "dottedTriple m1" for pre1 m1 post1
    proof -
      from tail[OF o d1] obtain pre2 where p: "pre1 = c # pre2" "cs = pre2 @ m1 @ post1"
        by blast
      from least[OF p(2) d1] p(1) show ?thesis by auto
    qed
    show ?thesis
      unfolding firstTriple_def fs
    proof (rule exI[of _ "c # pre"], rule exI[of _ post], intro conjI allI impI)
      show "c # cs = (c # pre) @ FindString cs @ post"
        using cs by simp
      show "dottedTriple (FindString cs)"
        by (rule df)
      fix pre1 m1 post1
      assume "c # cs = pre1 @ m1 @ post1 \<and> dottedTriple m1"
      then show "length (c # pre) < length pre1 \<or>
                 (length pre1 = length (c # pre) \<and> length m1 \<le> length (FindString cs))"
        using key[of pre1 m1 post1] by blast
    qed
  qed
qed

lemma FindString_empty_iff: "FindString s = [] \<longleftrightarrow> \<not> hasTriple s"
proof
  assume e: "FindString s = []"
  show "\<not> hasTriple s"
  proof
    assume "hasTriple s"
    then have "firstTriple s (FindString s)"
      unfolding hasTriple_def by (rule FindString_first)
    then have "dottedTriple (FindString s)"
      unfolding firstTriple_def by blast
    with e show False
      by (simp add: dottedTriple_nonempty)
  qed
next
  assume "\<not> hasTriple s"
  then show "FindString s = []"
    unfolding hasTriple_def by (rule FindString_none)
qed

text \<open>
  Claim C8. \<^verbatim>\<open>NewSingBoxCore\<close> runs the executable with the argument \<^verbatim>\<open>version\<close>. When the
  run fails it returns the error and no supervisor. Otherwise it returns a supervisor whose
  version is the first dotted triple of digits of the combined output when the output has
  one, and the output trimmed of white space when it has none.
\<close>

theorem version_detection:
  "(case Run E exePath [''version''] of
      Inl err \<Rightarrow> NewSingBoxCore E exePath assets dir n = Inl err
    | Inr output \<Rightarrow>
        (\<exists>c. NewSingBoxCore E exePath assets dir n = Inr c \<and>
             (if hasTriple output then firstTriple output (version c)
              else version c = TrimSpace output)))"
proof (cases "Run E exePath [''version'']")
  case (Inl err)
  then show ?thesis
    by (simp add: NewSingBoxCore_def refreshVersion_def)
next
  case (Inr outp)
  show ?thesis
  proof (cases "hasTriple outp")
    case True
    then have "firstTriple outp (FindString outp)"
      unfolding hasTriple_def by (rule FindString_first)
    moreover from True have "FindString outp \<noteq> []"
      by (simp add: FindString_empty_iff)
    ultimately show ?thesis
      using Inr True by (simp add: NewSingBoxCore_def refreshVersion_def)
  next
    case False
    then have "FindString outp = []"
      by (simp add: FindString_empty_iff)
    with Inr False show ?thesis
      by (simp add: NewSingBoxCore_def refreshVersion_def)
  qed
qed

lemma find_example: "FindString ''sing-box version 1.8.0'' = ''1.8.0''"
  by (simp add: matchTriple_def isDigit_def)

lemma find_dev: "FindString '' dev-build '' = []"
  by (simp add: matchTriple_def isDigit_def)

lemma trim_dev: "TrimSpace '' dev-build '' = ''dev-build''"
  by (simp add: TrimSpace_def TrimLeftSpace_def TrimRightSpace_def spaceRunes_def)

text \<open>The version of \<^verbatim>\<open>sing-box version 1.8.0\<close> is \<^verbatim>\<open>1.8.0\<close>, that of \<^verbatim>\<open>dev-build\<close> in blanks is \<^verbatim>\<open>dev-build\<close>.\<close>

theorem version_detection_witness:
  "(\<exists>c. NewSingBoxCore exampleEnv ''/usr/local/bin/sing-box'' ''/assets'' ''/generated'' 1000 = Inr c \<and>
        version c = ''1.8.0'' \<and> firstTriple ''sing-box version 1.8.0'' ''1.8.0'') \<and>
   (\<exists>c. NewSingBoxCore devEnv ''/usr/local/bin/sing-box'' ''/assets'' ''/generated'' 1000 = Inr c \<and>
        version c = ''dev-build'')"
proof -
  have r: "Run exampleEnv ''/usr/local/bin/sing-box'' [''version''] = Inr ''sing-box version 1.8.0''"
    by (simp add: exampleEnv_def)
  have h: "hasTriple ''sing-box version 1.8.0''"
    using find_example FindString_empty_iff[of "''sing-box version 1.8.0''"] by simp
  have v: "version c = ''1.8.0''"
    if "NewSingBoxCore exampleEnv ''/usr/local/bin/sing-box'' ''/assets'' ''/generated'' 1000 = Inr c" for c
    using that r
    by (auto simp: NewSingBoxCore_def refreshVersion_def find_example Let_def
             simp del: FindString.simps)
  from version_detection[of exampleEnv "''/usr/local/bin/sing-box''" "''/assets''" "''/generated''" 1000] r h
  obtain c where c: "NewSingBoxCore exampleEnv ''/usr/local/bin/sing-box'' ''/assets'' ''/generated'' 1000 = Inr c"
    and f: "firstTriple ''sing-box version 1.8.0'' (version c)"
    by auto
  from c f v[OF c] have one: "\<exists>c. NewSingBoxCore exampleEnv ''/usr/local/bin/sing-box'' ''/assets'' ''/generated'' 1000 = Inr c \<and>
        version c = ''1.8.0'' \<and> firstTriple ''sing-box version 1.8.0'' ''1.8.0''"
    by auto
  have r2: "Run devEnv ''/usr/local/bin/sing-box'' [''version''] = Inr '' dev-build ''"
    by (simp add: devEnv_def)
  have h2: "\<not> hasTriple '' dev-build ''"
    using find_dev FindString_empty_iff[of "'' dev-build ''"] by simp
  from version_detection[of devEnv "''/usr/local/bin/sing-box''" "''/assets''" "''/generated''" 1000] r2 h2
  have two: "\<exists>c. NewSingBoxCore devEnv ''/usr/local/bin/sing-box'' ''/assets'' ''/generated'' 1000 = Inr c \<and>
        version c = ''dev-build''"
    by (simp add: trim_dev)
  from one two show ?thesis ..
qed

end
